(* ===== verification/Prelude.thy ===== *)
theory Prelude
  imports Main "HOL-Library.Word" "HOL-Library.Signed_Division"
begin

text \<open>
  Shared vocabulary of the development: the exceptions the C++ code throws and the result
  type that carries them, the fixed-width integer ranges and casts, C++'s truncating
  division, and the generic lemmas on results, lists and casts that the component theories
  use. Nothing here models a particular file; the definitions stand for what the C++
  language and \<open>fc/exception\<close> mean by a throw, an assertion, a cast and a division.
\<close>

named_theorems result_simps
named_theorems cast_simps
named_theorems wp

section \<open>Exceptions and results\<close>

text \<open>
  A function that can throw returns \<open>Inl\<close> of the exception or \<open>Inr\<close> of its value. The
  state a throwing function has already changed is discarded with the value: every caller
  of the modelled operations runs inside a chainbase undo session that a thrown exception
  rolls back. \<open>Undefined_Behaviour\<close> is no exception of the code: it marks the inputs on which
  C++ gives the expression no meaning (a division of built-in integers by zero, an index
  outside an array), so that a theorem about a result \<open>Inr\<close> also rules those out.
\<close>

datatype fc_exception =
    Assert_Exception string
  | Overflow_Exception
  | Underflow_Exception
  | Divide_By_Zero_Exception
  | Parse_Error_Exception string
  | Unlinkable_Block_Exception string
  | Order_Match_Exception string
  | Order_Fill_Exception string
  | Out_Of_Range_Exception string
  | Logic_Error_Exception string
  | Undefined_Behaviour string

type_synonym 'a result = "fc_exception + 'a"

definition rbind :: "'a result \<Rightarrow> ('a \<Rightarrow> 'b result) \<Rightarrow> 'b result" where
  "rbind m f = (case m of Inl e \<Rightarrow> Inl e | Inr x \<Rightarrow> f x)"

definition fc_assert :: "bool \<Rightarrow> string \<Rightarrow> 'a result \<Rightarrow> 'a result" where
  "fc_assert b msg k = (if b then k else Inl (Assert_Exception msg))"

definition hive_assert :: "bool \<Rightarrow> fc_exception \<Rightarrow> 'a result \<Rightarrow> 'a result" where
  "hive_assert b e k = (if b then k else Inl e)"

definition is_ok :: "'a result \<Rightarrow> bool" where
  "is_ok r \<longleftrightarrow> (\<exists>x. r = Inr x)"

lemma rbind_Inr [simp]: "rbind (Inr x) f = f x"
  by (simp add: rbind_def)

lemma rbind_Inl [simp]: "rbind (Inl e) f = Inl e"
  by (simp add: rbind_def)

lemma rbind_eq_Inr [result_simps]: "rbind m f = Inr y \<longleftrightarrow> (\<exists>x. m = Inr x \<and> f x = Inr y)"
  by (cases m) auto

lemma rbind_eq_Inl [result_simps]:
  "rbind m f = Inl e \<longleftrightarrow> m = Inl e \<or> (\<exists>x. m = Inr x \<and> f x = Inl e)"
  by (cases m) auto

lemma rbind_assoc: "rbind (rbind m f) g = rbind m (\<lambda>x. rbind (f x) g)"
  by (cases m) auto

lemma rbind_cong [fundef_cong]:
  "m = m' \<Longrightarrow> (\<And>x. m' = Inr x \<Longrightarrow> f x = f' x) \<Longrightarrow> rbind m f = rbind m' f'"
  by (cases m') auto

lemma fc_assert_eq_Inr [result_simps]: "fc_assert b msg k = Inr y \<longleftrightarrow> b \<and> k = Inr y"
  by (simp add: fc_assert_def)

lemma fc_assert_True [simp]: "fc_assert True msg k = k"
  by (simp add: fc_assert_def)

lemma fc_assert_False [simp]: "fc_assert False msg k = Inl (Assert_Exception msg)"
  by (simp add: fc_assert_def)

lemma fc_assert_cong [fundef_cong]:
  "b = b' \<Longrightarrow> (b' \<Longrightarrow> k = k') \<Longrightarrow> fc_assert b msg k = fc_assert b' msg k'"
  by (simp add: fc_assert_def)

lemma hive_assert_eq_Inr [result_simps]: "hive_assert b e k = Inr y \<longleftrightarrow> b \<and> k = Inr y"
  by (simp add: hive_assert_def)

lemma hive_assert_True [simp]: "hive_assert True e k = k"
  by (simp add: hive_assert_def)

lemma hive_assert_False [simp]: "hive_assert False e k = Inl e"
  by (simp add: hive_assert_def)

lemma hive_assert_cong [fundef_cong]:
  "b = b' \<Longrightarrow> (b' \<Longrightarrow> k = k') \<Longrightarrow> hive_assert b e k = hive_assert b' e k'"
  by (simp add: hive_assert_def)

lemma is_ok_Inr [simp]: "is_ok (Inr x)"
  by (simp add: is_ok_def)

lemma is_ok_Inl [simp]: "\<not> is_ok (Inl e)"
  by (simp add: is_ok_def)

text \<open>
  \<open>on_ok m Q\<close>: if the computation \<open>m\<close> returns, its value satisfies \<open>Q\<close>. The rules of the collection
  \<open>wp\<close> compute such statements backwards through the structure of an operation, one rule per
  construct; each component adds the rules of its primitives. \<open>on_ok\<close> speaks of every way a
  call can succeed; that a call does succeed is stated separately where it is claimed.
\<close>

definition on_ok :: "'a result \<Rightarrow> ('a \<Rightarrow> bool) \<Rightarrow> bool" where
  "on_ok m Q \<longleftrightarrow> (\<forall>x. m = Inr x \<longrightarrow> Q x)"

lemma on_okI: "(\<And>x. m = Inr x \<Longrightarrow> Q x) \<Longrightarrow> on_ok m Q"
  by (simp add: on_ok_def)

lemma on_okD: "on_ok m Q \<Longrightarrow> m = Inr x \<Longrightarrow> Q x"
  by (simp add: on_ok_def)

lemma on_ok_mono: "on_ok m P \<Longrightarrow> (\<And>x. P x \<Longrightarrow> Q x) \<Longrightarrow> on_ok m Q"
  by (simp add: on_ok_def)

lemma on_ok_conj: "on_ok m P \<Longrightarrow> on_ok m Q \<Longrightarrow> on_ok m (\<lambda>x. P x \<and> Q x)"
  by (simp add: on_ok_def)

lemma wp_rbind [wp]: "on_ok m (\<lambda>x. on_ok (f x) Q) \<Longrightarrow> on_ok (rbind m f) Q"
  by (cases m) (simp_all add: on_ok_def)

lemma on_ok_rbind: "on_ok m P \<Longrightarrow> (\<And>x. P x \<Longrightarrow> on_ok (f x) Q) \<Longrightarrow> on_ok (rbind m f) Q"
  by (blast intro: wp_rbind on_ok_mono)

lemma wp_fc_assert [wp]: "(b \<Longrightarrow> on_ok k Q) \<Longrightarrow> on_ok (fc_assert b msg k) Q"
  by (simp add: on_ok_def fc_assert_def)

lemma wp_hive_assert [wp]: "(b \<Longrightarrow> on_ok k Q) \<Longrightarrow> on_ok (hive_assert b e k) Q"
  by (simp add: on_ok_def hive_assert_def)

lemma wp_if [wp]: "(b \<Longrightarrow> on_ok m Q) \<Longrightarrow> (\<not> b \<Longrightarrow> on_ok m' Q) \<Longrightarrow> on_ok (if b then m else m') Q"
  by simp

lemma wp_Inr [wp]: "Q x \<Longrightarrow> on_ok (Inr x) Q"
  by (simp add: on_ok_def)

lemma wp_Inl [wp]: "on_ok (Inl e) Q"
  by (simp add: on_ok_def)

lemma wp_prod [wp]: "(\<And>a b. p = (a, b) \<Longrightarrow> on_ok (f a b) Q) \<Longrightarrow> on_ok (case p of (a, b) \<Rightarrow> f a b) Q"
  by (cases p) simp

lemma wp_option [wp]:
  "(x = None \<Longrightarrow> on_ok m Q) \<Longrightarrow> (\<And>y. x = Some y \<Longrightarrow> on_ok (f y) Q) \<Longrightarrow> on_ok (case x of None \<Rightarrow> m | Some y \<Rightarrow> f y) Q"
  by (cases x) simp_all

section \<open>Fixed-width integers\<close>

text \<open>
  Values of C++ integer types are modelled by \<open>int\<close>, with the range of the type as an
  explicit bound and every conversion or wrapping operation written out as a cast.
\<close>

abbreviation int32_max :: int where "int32_max \<equiv> 2147483647"
abbreviation int64_max :: int where "int64_max \<equiv> 9223372036854775807"
abbreviation int64_min :: int where "int64_min \<equiv> -9223372036854775808"
abbreviation uint8_max :: int where "uint8_max \<equiv> 255"
abbreviation uint16_max :: int where "uint16_max \<equiv> 65535"
abbreviation uint32_max :: int where "uint32_max \<equiv> 4294967295"
abbreviation uint64_max :: int where "uint64_max \<equiv> 18446744073709551615"
abbreviation uint128_max :: int where
  "uint128_max \<equiv> 340282366920938463463374607431768211455"

definition in_int64 :: "int \<Rightarrow> bool" where
  "in_int64 x \<longleftrightarrow> int64_min \<le> x \<and> x \<le> int64_max"

definition in_uint64 :: "int \<Rightarrow> bool" where
  "in_uint64 x \<longleftrightarrow> 0 \<le> x \<and> x \<le> uint64_max"

definition in_uint128 :: "int \<Rightarrow> bool" where
  "in_uint128 x \<longleftrightarrow> 0 \<le> x \<and> x \<le> uint128_max"

definition cast_u8 :: "int \<Rightarrow> int" where "cast_u8 x = x mod 256"
definition cast_u16 :: "int \<Rightarrow> int" where "cast_u16 x = x mod 65536"
definition cast_u32 :: "int \<Rightarrow> int" where "cast_u32 x = x mod 4294967296"
definition cast_u64 :: "int \<Rightarrow> int" where "cast_u64 x = x mod 18446744073709551616"
definition cast_u128 :: "int \<Rightarrow> int" where
  "cast_u128 x = x mod 340282366920938463463374607431768211456"

definition cast_i64 :: "int \<Rightarrow> int" where
  "cast_i64 x = (x + 9223372036854775808) mod 18446744073709551616 - 9223372036854775808"

definition cast_i32 :: "int \<Rightarrow> int" where
  "cast_i32 x = (x + 2147483648) mod 4294967296 - 2147483648"

lemma cast_u64_id [cast_simps]: "0 \<le> x \<Longrightarrow> x \<le> uint64_max \<Longrightarrow> cast_u64 x = x"
  by (simp add: cast_u64_def)

lemma cast_u128_id [cast_simps]: "0 \<le> x \<Longrightarrow> x \<le> uint128_max \<Longrightarrow> cast_u128 x = x"
  by (simp add: cast_u128_def)

lemma cast_u32_id [cast_simps]: "0 \<le> x \<Longrightarrow> x \<le> uint32_max \<Longrightarrow> cast_u32 x = x"
  by (simp add: cast_u32_def)

lemma cast_u16_id [cast_simps]: "0 \<le> x \<Longrightarrow> x \<le> uint16_max \<Longrightarrow> cast_u16 x = x"
  by (simp add: cast_u16_def)

lemma cast_u8_id [cast_simps]: "0 \<le> x \<Longrightarrow> x \<le> uint8_max \<Longrightarrow> cast_u8 x = x"
  by (simp add: cast_u8_def)

lemma cast_i64_id [cast_simps]: "int64_min \<le> x \<Longrightarrow> x \<le> int64_max \<Longrightarrow> cast_i64 x = x"
  by (simp add: cast_i64_def)

lemma cast_i32_id [cast_simps]: "-2147483648 \<le> x \<Longrightarrow> x \<le> int32_max \<Longrightarrow> cast_i32 x = x"
  by (simp add: cast_i32_def)

lemma cast_u64_range: "0 \<le> cast_u64 x" "cast_u64 x \<le> uint64_max"
  by (simp_all add: cast_u64_def)

lemma cast_u128_range: "0 \<le> cast_u128 x" "cast_u128 x \<le> uint128_max"
  by (simp_all add: cast_u128_def)

lemma cast_i64_range: "in_int64 (cast_i64 x)"
  by (simp add: cast_i64_def in_int64_def)

lemma cast_i64_wrap_neg: "0 \<le> x \<Longrightarrow> x \<le> 9223372036854775808 \<Longrightarrow> cast_i64 (- x) = - x"
  by (simp add: cast_i64_def)

section \<open>Truncating division\<close>

text \<open>
  C++ integer division truncates towards zero; the library's \<open>sdiv\<close> and \<open>smod\<close> are that
  division and its remainder. On non-negative operands they are \<open>div\<close> and \<open>mod\<close>.
\<close>

lemma sdiv_nonneg: "0 \<le> (a::int) \<Longrightarrow> 0 \<le> b \<Longrightarrow> a sdiv b = a div b"
  by (auto simp: signed_divide_int_def sgn_if)

lemma smod_nonneg: "0 \<le> (a::int) \<Longrightarrow> 0 \<le> b \<Longrightarrow> a smod b = a mod b"
  by (cases "a = 0") (simp_all add: signed_modulo_int_def sgn_if)

section \<open>Sums over lists\<close>

lemma sum_list_map_nonneg:
  fixes f :: "'a \<Rightarrow> int"
  shows "(\<And>x. x \<in> set xs \<Longrightarrow> 0 \<le> f x) \<Longrightarrow> 0 \<le> sum_list (map f xs)"
  by (induction xs) auto

lemma sum_list_map_filter_split:
  fixes f :: "'a \<Rightarrow> int"
  shows "sum_list (map f xs) = sum_list (map f (filter P xs)) + sum_list (map f (filter (\<lambda>x. \<not> P x) xs))"
  by (induction xs) auto

lemma mult_le_uint128:
  fixes a b :: int
  assumes "0 \<le> a" "a \<le> uint64_max" "0 \<le> b" "b \<le> uint64_max"
  shows "a * b \<le> uint128_max"
proof -
  have "a * b \<le> uint64_max * uint64_max"
    by (rule mult_mono) (use assms in auto)
  also have "\<dots> \<le> uint128_max"
    by simp
  finally show ?thesis .
qed

end
