(* ===== verification/Fc_Integers.thy ===== *)
theory Fc_Integers
  imports Prelude
begin

unbundle bit_operations_syntax

text \<open>
  The integer layer of \<open>fc\<close>: the overflow-checked \<open>fc::safe<T>\<close> (fc/safe.hpp), the
  saturating additions of fc/saturation.hpp, and the 128-bit helpers of fc/uint128.hpp and
  fc/uint128.cpp. The lemmas show that a checked operation returns the exact result if and
  only if it fits the type, that the saturating ones clamp to the range of the type, and
  that the wide product and the approximate square root compute what they promise.
\<close>

section \<open>fc::safe\<close>

text \<open>
  \<open>safe<T>\<close> is used with \<open>T = int64_t\<close> (\<open>share_type\<close>) and \<open>T = uint64_t\<close>
  (\<open>ushare_type\<close>). The template parameter is the pair of \<open>std::numeric_limits\<close> bounds.
\<close>

record int_limits =
  lim_min :: int
  lim_max :: int

definition int64_limits :: int_limits where
  "int64_limits = \<lparr>lim_min = int64_min, lim_max = int64_max\<rparr>"

definition uint64_limits :: int_limits where
  "uint64_limits = \<lparr>lim_min = 0, lim_max = uint64_max\<rparr>"

definition in_limits :: "int_limits \<Rightarrow> int \<Rightarrow> bool" where
  "in_limits T x \<longleftrightarrow> lim_min T \<le> x \<and> x \<le> lim_max T"

definition machine_limits :: "int_limits \<Rightarrow> bool" where
  "machine_limits T \<longleftrightarrow> 0 < lim_max T \<and> (lim_min T = 0 \<or> lim_min T = - lim_max T - 1)"

text \<open>The literal \<open>-1\<close> compared with a \<open>T\<close>: converted to \<open>T\<close> when \<open>T\<close> is unsigned.\<close>

definition minus_one_of :: "int_limits \<Rightarrow> int" where
  "minus_one_of T = (if lim_min T < 0 then -1 else lim_max T)"

definition wrap_limits :: "int_limits \<Rightarrow> int \<Rightarrow> int" where
  "wrap_limits T x = (x - lim_min T) mod (lim_max T - lim_min T + 1) + lim_min T"

definition safe_add :: "int_limits \<Rightarrow> int \<Rightarrow> int \<Rightarrow> int result" where
  "safe_add T a b =
     (if b > 0 \<and> a > lim_max T - b then Inl Overflow_Exception
      else if b < 0 \<and> a < lim_min T - b then Inl Underflow_Exception
      else Inr (a + b))"

definition safe_sub :: "int_limits \<Rightarrow> int \<Rightarrow> int \<Rightarrow> int result" where
  "safe_sub T a b =
     (if b > 0 \<and> a < lim_min T + b then Inl Underflow_Exception
      else if b < 0 \<and> a > lim_max T + b then Inl Overflow_Exception
      else Inr (a - b))"

definition safe_mul :: "int_limits \<Rightarrow> int \<Rightarrow> int \<Rightarrow> int result" where
  "safe_mul T a b =
     (if a > 0 then
        (if b > 0 then
           (if a > lim_max T sdiv b then Inl Overflow_Exception else Inr (a * b))
         else
           (if b < lim_min T sdiv a then Inl Underflow_Exception else Inr (a * b)))
      else
        (if b > 0 then
           (if a < lim_min T sdiv b then Inl Underflow_Exception else Inr (a * b))
         else
           (if a \<noteq> 0 \<and> b < lim_max T sdiv a then Inl Overflow_Exception else Inr (a * b))))"

definition safe_div :: "int_limits \<Rightarrow> int \<Rightarrow> int \<Rightarrow> int result" where
  "safe_div T a b =
     (if b = 0 then Inl Divide_By_Zero_Exception
      else if a = lim_min T \<and> b = minus_one_of T then Inl Overflow_Exception
      else Inr (a sdiv b))"

definition safe_mod :: "int_limits \<Rightarrow> int \<Rightarrow> int \<Rightarrow> int result" where
  "safe_mod T a b =
     (if b = 0 then Inl Divide_By_Zero_Exception
      else if a = lim_min T \<and> b = minus_one_of T then Inl Overflow_Exception
      else Inr (a smod b))"

definition safe_neg :: "int_limits \<Rightarrow> int \<Rightarrow> int result" where
  "safe_neg T a =
     (if a = lim_min T then Inl Overflow_Exception else Inr (if lim_min T < 0 then - a else wrap_limits T (- a)))"

definition safe_inc :: "int_limits \<Rightarrow> int \<Rightarrow> int result" where
  "safe_inc T a = safe_add T a 1"

definition safe_dec :: "int_limits \<Rightarrow> int \<Rightarrow> int result" where
  "safe_dec T a = safe_sub T a 1"

text \<open>Abbreviations for the two instances the chain uses.\<close>

abbreviation sadd :: "int \<Rightarrow> int \<Rightarrow> int result" where "sadd \<equiv> safe_add int64_limits"
abbreviation ssub :: "int \<Rightarrow> int \<Rightarrow> int result" where "ssub \<equiv> safe_sub int64_limits"
abbreviation smul :: "int \<Rightarrow> int \<Rightarrow> int result" where "smul \<equiv> safe_mul int64_limits"
abbreviation sdivide :: "int \<Rightarrow> int \<Rightarrow> int result" where "sdivide \<equiv> safe_div int64_limits"
abbreviation sneg :: "int \<Rightarrow> int result" where "sneg \<equiv> safe_neg int64_limits"
abbreviation uadd :: "int \<Rightarrow> int \<Rightarrow> int result" where "uadd \<equiv> safe_add uint64_limits"
abbreviation usub :: "int \<Rightarrow> int \<Rightarrow> int result" where "usub \<equiv> safe_sub uint64_limits"

lemma limits_select [simp]:
  "lim_min int64_limits = int64_min" "lim_max int64_limits = int64_max"
  "lim_min uint64_limits = 0" "lim_max uint64_limits = uint64_max"
  by (simp_all add: int64_limits_def uint64_limits_def)

lemma machine_int64 [simp]: "machine_limits int64_limits"
  by (simp add: machine_limits_def int64_limits_def)

lemma machine_uint64 [simp]: "machine_limits uint64_limits"
  by (simp add: machine_limits_def uint64_limits_def)

lemma in_limits_int64 [simp]: "in_limits int64_limits x \<longleftrightarrow> in_int64 x"
  by (simp add: in_limits_def int64_limits_def in_int64_def)

lemma in_limits_uint64 [simp]: "in_limits uint64_limits x \<longleftrightarrow> in_uint64 x"
  by (simp add: in_limits_def uint64_limits_def in_uint64_def)

lemma safe_add_exact:
  assumes "machine_limits T" "in_limits T a" "in_limits T b"
  shows "safe_add T a b =
    (if in_limits T (a + b) then Inr (a + b)
     else Inl (if a + b > lim_max T then Overflow_Exception else Underflow_Exception))"
  using assms by (auto simp: safe_add_def in_limits_def machine_limits_def)

lemma safe_sub_exact:
  assumes "machine_limits T" "in_limits T a" "in_limits T b"
  shows "safe_sub T a b =
    (if in_limits T (a - b) then Inr (a - b)
     else Inl (if a - b > lim_max T then Overflow_Exception else Underflow_Exception))"
  using assms by (auto simp: safe_sub_def in_limits_def machine_limits_def)

lemma sdiv_neg_left: "(a::int) \<le> 0 \<Longrightarrow> 0 < b \<Longrightarrow> a sdiv b = - (- a div b)"
  by (auto simp: signed_divide_int_def sgn_if)

lemma sdiv_neg_right: "0 \<le> (a::int) \<Longrightarrow> b < 0 \<Longrightarrow> a sdiv b = - (a div (- b))"
  by (auto simp: signed_divide_int_def sgn_if)

lemma int_div_less_iff:
  fixes a b m :: int
  assumes "0 < b"
  shows "m div b < a \<longleftrightarrow> m < a * b"
proof
  assume "m div b < a"
  then have "(m div b + 1) * b \<le> a * b"
    using assms by (intro mult_right_mono) auto
  moreover have "m < (m div b + 1) * b"
    using pos_mod_bound [OF assms, of m] div_mult_mod_eq [of m b]
    unfolding distrib_right by linarith
  ultimately show "m < a * b" by simp
next
  assume less: "m < a * b"
  show "m div b < a"
  proof (rule ccontr)
    assume "\<not> m div b < a"
    then have "a * b \<le> (m div b) * b"
      using assms by (intro mult_right_mono) auto
    moreover have "(m div b) * b \<le> m"
      using pos_mod_sign [OF assms, of m] div_mult_mod_eq [of m b] by linarith
    ultimately show False using less by simp
  qed
qed

lemma safe_mul_exact:
  assumes T: "machine_limits T" and "in_limits T a" "in_limits T b"
  shows "safe_mul T a b =
    (if in_limits T (a * b) then Inr (a * b)
     else Inl (if a * b > lim_max T then Overflow_Exception else Underflow_Exception))"
proof -
  have lim: "0 < lim_max T" "lim_min T \<le> 0"
    using T by (auto simp: machine_limits_def)
  consider "0 < a" "0 < b" | "0 < a" "b \<le> 0" | "a \<le> 0" "0 < b" | "a = 0" "b \<le> 0" | "a < 0" "b \<le> 0"
    by linarith
  then show ?thesis
  proof cases
    case 1
    then have "lim_max T sdiv b < a \<longleftrightarrow> lim_max T < a * b" "0 < a * b"
      using lim by (simp_all add: sdiv_nonneg int_div_less_iff)
    moreover from this lim have "lim_min T \<le> a * b" by linarith
    ultimately show ?thesis using 1 lim by (auto simp: safe_mul_def in_limits_def)
  next
    case 2
    then have "b < lim_min T sdiv a \<longleftrightarrow> - lim_min T div a < - b"
      using lim by (auto simp: sdiv_neg_left)
    also have "\<dots> \<longleftrightarrow> a * b < lim_min T"
      using 2 by (auto simp: int_div_less_iff mult.commute)
    finally have "b < lim_min T sdiv a \<longleftrightarrow> a * b < lim_min T" .
    moreover have "a * b \<le> 0" using 2 by (simp add: mult_nonneg_nonpos)
    ultimately show ?thesis using 2 lim by (auto simp: safe_mul_def in_limits_def)
  next
    case 3
    then have "a < lim_min T sdiv b \<longleftrightarrow> - lim_min T div b < - a"
      using lim by (auto simp: sdiv_neg_left)
    also have "\<dots> \<longleftrightarrow> a * b < lim_min T"
      using 3 by (auto simp: int_div_less_iff)
    finally have "a < lim_min T sdiv b \<longleftrightarrow> a * b < lim_min T" .
    moreover have "a * b \<le> 0" using 3 by (simp add: mult_nonpos_nonneg)
    ultimately show ?thesis using 3 lim by (auto simp: safe_mul_def in_limits_def)
  next
    case 4
    then show ?thesis using lim by (auto simp: safe_mul_def in_limits_def)
  next
    case 5
    then have "b < lim_max T sdiv a \<longleftrightarrow> lim_max T div (- a) < - b"
      using lim by (auto simp: sdiv_neg_right)
    also have "\<dots> \<longleftrightarrow> lim_max T < a * b"
      using 5 by (simp add: int_div_less_iff mult.commute)
    finally have "b < lim_max T sdiv a \<longleftrightarrow> lim_max T < a * b" .
    moreover have "0 \<le> a * b" using 5 by (simp add: mult_nonpos_nonpos)
    ultimately show ?thesis using 5 lim by (auto simp: safe_mul_def in_limits_def)
  qed
qed

lemma sadd_eq_Inr [result_simps]: "sadd a b = Inr c \<Longrightarrow> c = a + b"
  by (auto simp: safe_add_def split: if_splits)

lemma ssub_eq_Inr [result_simps]: "ssub a b = Inr c \<Longrightarrow> c = a - b"
  by (auto simp: safe_sub_def split: if_splits)

lemma wp_sadd [wp]: "Q (a + b) \<Longrightarrow> on_ok (sadd a b) Q"
  by (auto intro!: on_okI dest!: sadd_eq_Inr)

lemma wp_ssub [wp]: "Q (a - b) \<Longrightarrow> on_ok (ssub a b) Q"
  by (auto intro!: on_okI dest!: ssub_eq_Inr)

lemma wp_smul [wp]: "Q (a * b) \<Longrightarrow> on_ok (smul a b) Q"
  by (auto intro!: on_okI simp: safe_mul_def split: if_splits)

lemma safe_add_in_limits: "in_limits T a \<Longrightarrow> in_limits T b \<Longrightarrow> machine_limits T \<Longrightarrow>
   safe_add T a b = Inr c \<Longrightarrow> in_limits T c \<and> c = a + b"
  by (auto simp: safe_add_exact split: if_splits)

lemma safe_sub_in_limits: "in_limits T a \<Longrightarrow> in_limits T b \<Longrightarrow> machine_limits T \<Longrightarrow>
   safe_sub T a b = Inr c \<Longrightarrow> in_limits T c \<and> c = a - b"
  by (auto simp: safe_sub_exact split: if_splits)

lemma sneg_eq_Inr: "sneg a = Inr c \<Longrightarrow> c = - a \<and> a \<noteq> int64_min"
  by (auto simp: safe_neg_def int64_limits_def split: if_splits)

lemma sneg_ok: "a \<noteq> int64_min \<Longrightarrow> sneg a = Inr (- a)"
  by (auto simp: safe_neg_def int64_limits_def)

section \<open>fc::signed_sat_add, fc::signed_sat_sub\<close>

definition signed_max :: "'a::len word" where
  "signed_max = word_of_int (2 ^ (LENGTH('a) - 1) - 1)"

definition signed_min :: "'a::len word" where
  "signed_min = word_of_int (- (2 ^ (LENGTH('a) - 1)))"

definition signed_sat_add :: "'a::len word \<Rightarrow> 'a word \<Rightarrow> 'a word" where
  "signed_sat_add x y =
     (let res = x + y;
          sat = (if 0 \<le>s x then signed_max else signed_min)
      in if (NOT (x XOR y) AND (x XOR res)) <s 0 then sat else res)"

definition signed_sat_sub :: "'a::len word \<Rightarrow> 'a word \<Rightarrow> 'a word" where
  "signed_sat_sub x y =
     (let res = x - y;
          sat = (if 0 \<le>s x then signed_max else signed_min)
      in if ((x XOR y) AND (x XOR res)) <s 0 then sat else res)"

definition clamp_signed :: "nat \<Rightarrow> int \<Rightarrow> int" where
  "clamp_signed n k = max (- (2 ^ (n - 1))) (min (2 ^ (n - 1) - 1) k)"

lemma sint_signed_max: "sint (signed_max :: 'a::len word) = 2 ^ (LENGTH('a) - 1) - 1"
  by (subst signed_max_def, subst sint_sbintrunc')
    (rule signed_take_bit_int_eq_self, auto)

lemma sint_signed_min: "sint (signed_min :: 'a::len word) = - (2 ^ (LENGTH('a) - 1))"
  by (subst signed_min_def, subst sint_sbintrunc')
    (rule signed_take_bit_int_eq_self, auto)

lemma sign_and_xor:
  fixes x y r :: "'a::len word"
  shows "(NOT (x XOR y) AND (x XOR r)) <s 0 \<longleftrightarrow>
      (sint x < 0 \<longleftrightarrow> sint y < 0) \<and> (sint x < 0 \<longleftrightarrow> \<not> sint r < 0)"
    and "((x XOR y) AND (x XOR r)) <s 0 \<longleftrightarrow>
      (sint x < 0 \<longleftrightarrow> \<not> sint y < 0) \<and> (sint x < 0 \<longleftrightarrow> \<not> sint r < 0)"
  by (auto simp: word_sless_alt bit_simps simp flip: bit_last_iff)

lemma signed_wrap:
  fixes k M :: int
  assumes M: "M = 2 ^ m" and "- (2 * M) \<le> k" "k < 2 * M"
  shows "signed_take_bit m k = (if k < - M then k + 2 * M else if k \<ge> M then k - 2 * M else k)"
proof -
  have eq: "signed_take_bit m k = (k + M) mod (2 * M) - M"
    by (simp add: signed_take_bit_eq_take_bit_shift take_bit_eq_mod M)
  have pos: "0 < M" by (simp add: M)
  consider "k < - M" | "k \<ge> M" | "- M \<le> k" "k < M" by linarith
  then show ?thesis
  proof cases
    case 1
    have "(k + M) mod (2 * M) = (k + M + 2 * M) mod (2 * M)"
      by (metis mod_add_self2)
    also have "\<dots> = k + M + 2 * M" by (rule mod_pos_pos_trivial) (use 1 assms in auto)
    finally show ?thesis using 1 by (simp add: eq)
  next
    case 2
    have "(k + M) mod (2 * M) = (k + M - 2 * M) mod (2 * M)"
      by (metis minus_mod_self2)
    also have "\<dots> = k + M - 2 * M" by (rule mod_pos_pos_trivial) (use 2 assms in auto)
    finally show ?thesis using 2 pos by (simp add: eq)
  next
    case 3
    then show ?thesis using pos by (simp add: eq)
  qed
qed

lemma sint_signed_sat_add:
  fixes x y :: "'a::len word"
  shows "sint (signed_sat_add x y) = clamp_signed LENGTH('a) (sint x + sint y)"
proof -
  define M :: int where "M = 2 ^ (LENGTH('a) - Suc 0)"
  have b: "- M \<le> sint x" "sint x < M" "- M \<le> sint y" "sint y < M" "0 < M"
    using sint_ge [of x] sint_lt [of x] sint_ge [of y] sint_lt [of y] by (simp_all add: M_def)
  have r: "sint (x + y) =
      (if sint x + sint y < - M then sint x + sint y + 2 * M
       else if sint x + sint y \<ge> M then sint x + sint y - 2 * M else sint x + sint y)"
    unfolding sint_word_add by (rule signed_wrap) (use b in \<open>auto simp: M_def\<close>)
  show ?thesis
    using b r
    by (auto simp: signed_sat_add_def Let_def sign_and_xor clamp_signed_def word_sle_eq
        sint_signed_max sint_signed_min simp flip: M_def)
qed

lemma sint_signed_sat_sub:
  fixes x y :: "'a::len word"
  shows "sint (signed_sat_sub x y) = clamp_signed LENGTH('a) (sint x - sint y)"
proof -
  define M :: int where "M = 2 ^ (LENGTH('a) - Suc 0)"
  have b: "- M \<le> sint x" "sint x < M" "- M \<le> sint y" "sint y < M" "0 < M"
    using sint_ge [of x] sint_lt [of x] sint_ge [of y] sint_lt [of y] by (simp_all add: M_def)
  have r: "sint (x - y) =
      (if sint x - sint y < - M then sint x - sint y + 2 * M
       else if sint x - sint y \<ge> M then sint x - sint y - 2 * M else sint x - sint y)"
    unfolding sint_word_diff by (rule signed_wrap) (use b in \<open>auto simp: M_def\<close>)
  show ?thesis
    using b r
    by (auto simp: signed_sat_sub_def Let_def sign_and_xor clamp_signed_def word_sle_eq
        sint_signed_max sint_signed_min simp flip: M_def)
qed

text \<open>The 64-bit instances, on the integer values the chain objects hold.\<close>

definition sat_add_i64 :: "int \<Rightarrow> int \<Rightarrow> int" where
  "sat_add_i64 x y = sint (signed_sat_add (word_of_int x :: 64 word) (word_of_int y))"

definition sat_sub_i64 :: "int \<Rightarrow> int \<Rightarrow> int" where
  "sat_sub_i64 x y = sint (signed_sat_sub (word_of_int x :: 64 word) (word_of_int y))"

lemma sint_word64 [simp]: "in_int64 x \<Longrightarrow> sint (word_of_int x :: 64 word) = x"
  by (subst sint_sbintrunc', rule signed_take_bit_int_eq_self) (auto simp: in_int64_def)

lemma sat_add_i64_clamp:
  "in_int64 x \<Longrightarrow> in_int64 y \<Longrightarrow> sat_add_i64 x y = max int64_min (min int64_max (x + y))"
  by (simp add: sat_add_i64_def sint_signed_sat_add clamp_signed_def)

lemma sat_sub_i64_clamp:
  "in_int64 x \<Longrightarrow> in_int64 y \<Longrightarrow> sat_sub_i64 x y = max int64_min (min int64_max (x - y))"
  by (simp add: sat_sub_i64_def sint_signed_sat_sub clamp_signed_def)

section \<open>128-bit helpers\<close>

definition to_uint128 :: "64 word \<Rightarrow> 64 word \<Rightarrow> 128 word" where
  "to_uint128 hi lo = push_bit 64 (ucast hi) OR ucast lo"

definition uint128_low_bits :: "128 word \<Rightarrow> 64 word" where
  "uint128_low_bits u = ucast u"

definition uint128_high_bits :: "128 word \<Rightarrow> 64 word" where
  "uint128_high_bits u = ucast (drop_bit 64 u)"

definition uint128_to_integer :: "int \<Rightarrow> int result" where
  "uint128_to_integer u =
     fc_assert (u \<le> uint32_max) ''u <= std::numeric_limits<uint32_t>::max()'' (Inr u)"

definition uint128_to_uint64 :: "int \<Rightarrow> int result" where
  "uint128_to_uint64 u =
     fc_assert (u \<le> uint64_max) ''u <= std::numeric_limits<uint64_t>::max()'' (Inr u)"

definition uint128_to_int64 :: "int \<Rightarrow> int result" where
  "uint128_to_int64 u =
     fc_assert (u \<le> int64_max) ''u <= static_cast<uint64_t>(std::numeric_limits<int64_t>::max())'' (Inr u)"

lemma uint128_to_uint64_eq_Inr [result_simps]: "uint128_to_uint64 u = Inr x \<longleftrightarrow> x = u \<and> u \<le> uint64_max"
  by (auto simp: uint128_to_uint64_def result_simps)

lemma uint128_to_int64_eq_Inr [result_simps]: "uint128_to_int64 u = Inr x \<longleftrightarrow> x = u \<and> u \<le> int64_max"
  by (auto simp: uint128_to_int64_def result_simps)

definition uint128_full_product :: "128 word \<Rightarrow> 128 word \<Rightarrow> 128 word \<times> 128 word" where
  "uint128_full_product a b =
     (let ah = uint128_high_bits a; al = uint128_low_bits a;
          bh = uint128_high_bits b; bl = uint128_low_bits b;
          s = (ucast al :: 128 word) * ucast bl;
          r = (ucast ah :: 128 word) * ucast bl;
          q = (ucast al :: 128 word) * ucast bh;
          p = (ucast ah :: 128 word) * ucast bh;
          sl = uint128_low_bits s; sh = uint128_high_bits s;
          rl = uint128_low_bits r; rh = uint128_high_bits r;
          ql = uint128_low_bits q; qh = uint128_high_bits q;
          pl = uint128_low_bits p; ph = uint128_high_bits p;
          y0 = sl;
          acc = (ucast sh :: 128 word) + ucast ql + ucast rl;
          y1 = uint128_low_bits acc;
          acc2 = (ucast (uint128_high_bits acc) :: 128 word) + ucast qh + ucast rh + ucast pl;
          y2 = uint128_low_bits acc2;
          y3 = uint128_high_bits acc2 + ph
      in (to_uint128 y3 y2, to_uint128 y1 y0))"

lemma uint_low_bits: "uint (uint128_low_bits u) = uint u mod 2 ^ 64"
  by (simp add: uint128_low_bits_def uint_up_ucast take_bit_eq_mod unsigned_ucast_eq)

lemma uint_high_bits: "uint (uint128_high_bits u) = uint u div 2 ^ 64"
proof -
  have "0 \<le> uint u div 2 ^ 64" "uint u div 2 ^ 64 < 2 ^ 64"
    using uint_bounded [of u] by (simp_all add: pos_imp_zdiv_nonneg_iff)
  then show ?thesis
    by (simp add: uint128_high_bits_def unsigned_ucast_eq drop_bit_eq_div uint_div_distrib
        take_bit_eq_mod)
qed

lemma uint_split_bits: "uint u = uint (uint128_high_bits u) * 2 ^ 64 + uint (uint128_low_bits u)"
  by (simp add: uint_high_bits uint_low_bits)

lemma uint64_bounds: "0 \<le> uint (w :: 64 word)" "uint (w :: 64 word) \<le> uint64_max"
  using uint_bounded [of w] by simp_all

lemma uint_ucast_64_128: "uint (ucast (w :: 64 word) :: 128 word) = uint w"
  by (simp add: unsigned_ucast_eq take_bit_eq_mod) (use uint_bounded [of w] in simp)

lemma uint_add_128: "uint x + uint y \<le> uint128_max \<Longrightarrow> uint (x + y :: 128 word) = uint x + uint y"
  using uint_ge_0 [of x] uint_ge_0 [of y] by (simp add: uint_word_ariths)

lemma uint_mult_128: "uint x * uint y \<le> uint128_max \<Longrightarrow> uint (x * y :: 128 word) = uint x * uint y"
  using uint_ge_0 [of x] uint_ge_0 [of y] by (simp add: uint_word_ariths)

lemma uint_to_uint128: "uint (to_uint128 hi lo) = uint hi * 2 ^ 64 + uint lo"
proof -
  have "to_uint128 hi lo = push_bit 64 (ucast hi) + ucast lo"
    unfolding to_uint128_def
    by (rule disjunctive_add [symmetric]) (auto simp: bit_simps dest: bit_imp_le_length)
  also have "uint \<dots> = uint hi * 2 ^ 64 + uint lo"
    using uint64_bounds [of hi] uint64_bounds [of lo]
    by (simp add: push_bit_eq_mult uint_word_ariths uint_ucast_64_128)
  finally show ?thesis .
qed

lemma uint_full_product_halves:
  "uint ((ucast (x :: 64 word) :: 128 word) * ucast (y :: 64 word)) = uint x * uint y"
  by (subst uint_mult_128)
    (use uint64_bounds [of x] uint64_bounds [of y] in
      \<open>auto simp: uint_ucast_64_128 intro: mult_le_uint128\<close>)

lemma uint_limb_sum:
  fixes x y z t :: "64 word"
  shows "uint ((ucast x :: 128 word) + ucast y + ucast z) = uint x + uint y + uint z"
    and "uint ((ucast x :: 128 word) + ucast y + ucast z + ucast t) =
      uint x + uint y + uint z + uint t"
  using uint64_bounds [of x] uint64_bounds [of y] uint64_bounds [of z] uint64_bounds [of t]
  by (simp_all add: uint_add_128 uint_ucast_64_128)

lemma limb_identity:
  fixes W :: int
  assumes "P = pd * W + pm" "Q = qd * W + qm" "R = rd * W + rm" "S = sd * W + sm"
    and "sd + qm + rm = ad * W + am" and "ad + qd + rd + pm = bd * W + bm"
  shows "((bd + pd) * W + bm) * (W * W) + (am * W + sm) = P * (W * W) + (Q + R) * W + S"
  using assms by algebra

lemma uint128_full_product_correct:
  assumes "uint128_full_product a b = (hi, lo)"
  shows "uint hi * 2 ^ 128 + uint lo = uint a * uint b"
proof -
  define W :: int where "W = 2 ^ 64"
  define A1 A0 B1 B0 where "A1 = uint (uint128_high_bits a)" and "A0 = uint (uint128_low_bits a)"
    and "B1 = uint (uint128_high_bits b)" and "B0 = uint (uint128_low_bits b)"
  note bnd = uint64_bounds [of "uint128_high_bits a", folded A1_def]
    uint64_bounds [of "uint128_low_bits a", folded A0_def]
    uint64_bounds [of "uint128_high_bits b", folded B1_def]
    uint64_bounds [of "uint128_low_bits b", folded B0_def]
  define P Q R S where "P = A1 * B1" and "Q = A0 * B1" and "R = A1 * B0" and "S = A0 * B0"
  define acc where "acc = S div W + Q mod W + R mod W"
  define acc2 where "acc2 = acc div W + Q div W + R div W + P mod W"
  define X where "X = acc2 div W + P div W"
  have ab: "uint a * uint b = P * (W * W) + (Q + R) * W + S"
    using uint_split_bits [of a] uint_split_bits [of b]
    by (simp add: P_def Q_def R_def S_def A1_def A0_def B1_def B0_def W_def algebra_simps)
  have total: "(X * W + acc2 mod W) * (W * W) + ((acc mod W) * W + S mod W) = uint a * uint b"
    unfolding ab X_def
    by (rule limb_identity [where sd = "S div W" and qm = "Q mod W" and rm = "R mod W"
          and ad = "acc div W" and qd = "Q div W" and rd = "R div W" and pm = "P mod W"])
      (simp_all add: acc_def acc2_def)
  have pos: "0 \<le> P" "0 \<le> Q" "0 \<le> R" "0 \<le> S"
    using bnd by (simp_all add: P_def Q_def R_def S_def)
  have X: "0 \<le> X" "X \<le> uint64_max"
  proof -
    show "0 \<le> X"
      using pos by (simp add: X_def acc2_def acc_def W_def pos_imp_zdiv_nonneg_iff)
    have "X * (W * W * W) \<le> uint a * uint b"
      unfolding total [symmetric] by (simp add: W_def)
    also have "\<dots> \<le> uint128_max * uint128_max"
      by (rule mult_mono) (use uint_bounded [of a] uint_bounded [of b] in simp_all)
    finally show "X \<le> uint64_max" by (simp add: W_def)
  qed
  define s r q p :: "128 word"
    where "s = ucast (uint128_low_bits a) * ucast (uint128_low_bits b)"
      and "r = ucast (uint128_high_bits a) * ucast (uint128_low_bits b)"
      and "q = ucast (uint128_low_bits a) * ucast (uint128_high_bits b)"
      and "p = ucast (uint128_high_bits a) * ucast (uint128_high_bits b)"
  have limbs: "uint s = S" "uint r = R" "uint q = Q" "uint p = P"
    by (simp_all only: s_def r_def q_def p_def uint_full_product_halves S_def R_def Q_def P_def
        A1_def A0_def B1_def B0_def)
  define accw acc2w :: "128 word"
    where "accw = ucast (uint128_high_bits s) + ucast (uint128_low_bits q) + ucast (uint128_low_bits r)"
      and "acc2w = ucast (uint128_high_bits accw) + ucast (uint128_high_bits q)
             + ucast (uint128_high_bits r) + ucast (uint128_low_bits p)"
  have accs: "uint accw = acc" "uint acc2w = acc2"
    by (simp_all only: accw_def acc2w_def uint_limb_sum uint_low_bits uint_high_bits limbs
        acc_def acc2_def W_def)
  have hl: "hi = to_uint128 (uint128_high_bits acc2w + uint128_high_bits p) (uint128_low_bits acc2w)"
    "lo = to_uint128 (uint128_low_bits accw) (uint128_low_bits s)"
    using assms
    by (simp_all only: uint128_full_product_def Let_def prod.inject flip: s_def r_def q_def p_def
        accw_def acc2w_def)
  have "uint (uint128_high_bits acc2w + uint128_high_bits p) = X"
    using X by (simp add: uint_word_ariths(1) uint_high_bits accs limbs X_def W_def)
  then have "uint hi = X * W + acc2 mod W"
    by (simp add: hl uint_to_uint128 uint_low_bits accs W_def)
  moreover have "uint lo = (acc mod W) * W + S mod W"
    by (simp add: hl uint_to_uint128 uint_low_bits accs limbs W_def)
  ultimately show ?thesis
    using total by (simp add: W_def)
qed

section \<open>Approximate square root\<close>

text \<open>
  \<open>boost::multiprecision::detail::find_msb\<close> is not part of the repository; it is the
  parameter \<open>find_msb\<close>. What the code relies on, as documented by Boost, is that it
  returns the index of the most significant set bit of a non-zero 64-bit value.
\<close>

definition msb_index :: "(int \<Rightarrow> nat) \<Rightarrow> bool" where
  "msb_index find_msb \<longleftrightarrow>
     (\<forall>x. 0 < x \<and> x \<le> uint64_max \<longrightarrow> 2 ^ find_msb x \<le> x \<and> x < 2 ^ Suc (find_msb x))"

definition uint128_find_msb :: "(int \<Rightarrow> nat) \<Rightarrow> int \<Rightarrow> nat" where
  "uint128_find_msb find_msb u =
     (let hi = u div 18446744073709551616; lo = u mod 18446744073709551616;
          places = (if hi \<noteq> 0 then 64 else 0);
          x = (if hi \<noteq> 0 then hi else lo);
          x' = (if x = 0 then 1 else x)
      in find_msb x' + places)"

definition uint128_approx_sqrt :: "(int \<Rightarrow> nat) \<Rightarrow> int \<Rightarrow> int" where
  "uint128_approx_sqrt find_msb x =
     (if x = 0 then 0
      else
        let msb_x = uint128_find_msb find_msb x;
            msb_z = msb_x div 2;
            msb_x_bit = 2 ^ msb_x;
            msb_z_bit = 2 ^ msb_z;
            mantissa_mask = msb_x_bit - 1;
            mantissa_x = x AND mantissa_mask;
            mantissa_z_hi = (if odd msb_x then msb_z_bit else 0);
            mantissa_z_lo = cast_u64 (drop_bit (msb_x - msb_z) mantissa_x);
            mantissa_z = drop_bit 1 (mantissa_z_hi OR mantissa_z_lo)
        in msb_z_bit OR mantissa_z)"

lemma uint128_find_msb_bounds:
  assumes "msb_index find_msb" "0 < x" "x \<le> uint128_max"
  shows "2 ^ uint128_find_msb find_msb x \<le> x" "x < 2 ^ Suc (uint128_find_msb find_msb x)"
proof -
  define hi where "hi = x div 18446744073709551616"
  have x: "x = hi * 18446744073709551616 + x mod 18446744073709551616"
    by (simp add: hi_def)
  have hi: "0 \<le> hi" "hi \<le> uint64_max"
    using assms by (simp_all add: hi_def pos_imp_zdiv_nonneg_iff)
  have md: "0 \<le> x mod 18446744073709551616" "x mod 18446744073709551616 \<le> uint64_max"
    by simp_all
  have "2 ^ uint128_find_msb find_msb x \<le> x \<and> x < 2 ^ Suc (uint128_find_msb find_msb x)"
  proof (cases "hi = 0")
    case True
    then have "x \<le> uint64_max" using x md by linarith
    with True assms show ?thesis
      by (simp add: uint128_find_msb_def msb_index_def flip: hi_def)
  next
    case False
    then have "2 ^ find_msb hi \<le> hi" "hi < 2 ^ Suc (find_msb hi)"
      using assms hi by (simp_all add: msb_index_def)
    then have "2 ^ find_msb hi * 18446744073709551616 \<le> x"
      "x < 2 ^ Suc (find_msb hi) * 18446744073709551616"
      using x md by linarith+
    with False show ?thesis
      by (simp add: uint128_find_msb_def power_add flip: hi_def)
  qed
  then show "2 ^ uint128_find_msb find_msb x \<le> x" "x < 2 ^ Suc (uint128_find_msb find_msb x)"
    by simp_all
qed

text \<open>
  The bit manipulation, arithmetically: with \<open>x = 2 ^ m + r\<close>, \<open>r < 2 ^ m\<close> and
  \<open>k = m div 2\<close>, the result is \<open>2 ^ k\<close> plus half of the top \<open>k\<close> bits of \<open>r\<close>, with
  the odd bit of \<open>m\<close> in front.
\<close>

lemma and_exp: "(s::int) AND 2 ^ n = of_bool (bit s n) * 2 ^ n"
  by (intro bit_eqI) (auto simp: bit_simps)

lemma and_exp_minus_one: "(s::int) AND (2 ^ n - 1) = s mod 2 ^ n"
  using take_bit_eq_mask [of n s] by (simp add: take_bit_eq_mod mask_eq_exp_minus_1)

lemma or_push_bit_add:
  fixes a b :: int
  assumes "0 \<le> b" "b < 2 ^ n"
  shows "push_bit n a OR b = a * 2 ^ n + b"
proof -
  have "take_bit n b = b" using assms by (simp add: take_bit_int_eq_self)
  then have "\<not> bit b i" if "n \<le> i" for i using that by (metis bit_take_bit_iff leD)
  then have "push_bit n a AND b = 0"
    by (intro bit_eqI) (auto simp: bit_simps)
  then show ?thesis
    using plus_and_or [of "push_bit n a" b] by (simp add: push_bit_eq_mult)
qed

lemma or_disjoint_add:
  fixes a b :: int
  assumes "0 \<le> b" "b < 2 ^ n" "a = 2 ^ n \<or> a = 0"
  shows "a OR b = a + b"
  using or_push_bit_add [OF assms(1,2), of 1] assms(3) by (auto simp: push_bit_eq_mult)

lemma approx_sqrt_arith:
  assumes x: "0 < x" "x \<le> uint128_max" and msb: "msb_index find_msb"
    and m: "m = uint128_find_msb find_msb x" and k: "k = m div 2"
    and r: "r = x - 2 ^ m" and q: "q = r div 2 ^ (m - k)"
  shows "uint128_approx_sqrt find_msb x = 2 ^ k + ((if odd m then 2 ^ k else 0) + q) div 2"
    and "0 \<le> r" "r < 2 ^ m" "0 \<le> q" "q < 2 ^ k"
proof -
  have b: "2 ^ m \<le> x" "x < 2 ^ Suc m"
    using uint128_find_msb_bounds [OF msb x] by (simp_all add: m)
  then show r_nn: "0 \<le> r" and r_lt: "r < 2 ^ m" by (simp_all add: r)
  then show q_nn: "0 \<le> q" by (simp add: q pos_imp_zdiv_nonneg_iff)
  have split: "(2::int) ^ m = 2 ^ k * 2 ^ (m - k)"
    by (simp add: k flip: power_add)
  then show q_lt: "q < 2 ^ k"
    using r_lt by (simp add: q int_div_less_iff)
  have "(2::int) ^ m < 2 ^ 128" using b(1) x(2) by simp
  then have "m < 128" by (rule power_less_imp_less_exp [rotated]) simp
  then have "k \<le> 63" by (simp add: k)
  then have "(2::int) ^ k \<le> 2 ^ 63" by (rule power_increasing) simp
  then have qc: "cast_u64 q = q" using q_nn q_lt by (simp add: cast_simps)
  have mx: "x AND (2 ^ m - 1) = r"
  proof -
    have "x AND (2 ^ m - 1) = x mod 2 ^ m" by (rule and_exp_minus_one)
    also have "\<dots> = (2 ^ m + r) mod 2 ^ m" by (simp add: r)
    also have "\<dots> = r" using r_nn r_lt by simp
    finally show ?thesis .
  qed
  define z where "z = ((if odd m then 2 ^ k else 0) + q) div 2"
  have z: "0 \<le> z" "z < 2 ^ k" using q_nn q_lt by (auto simp: z_def)
  have "(if odd m then 2 ^ k else 0) OR q = (if odd m then 2 ^ k else 0) + q"
    by (rule or_disjoint_add [OF q_nn q_lt]) simp
  moreover have "2 ^ k OR z = 2 ^ k + z"
    by (rule or_disjoint_add [OF z]) simp
  ultimately show "uint128_approx_sqrt find_msb x = 2 ^ k + z"
    using x(1) mx qc
    by (cases "odd m")
      (simp_all add: uint128_approx_sqrt_def Let_def z_def drop_bit_eq_div flip: m k q)
qed

lemma approx_sqrt_even_case:
  fixes K q s z :: int
  assumes K: "0 < K" "0 \<le> q" "q < K" "0 \<le> s" "s < K"
    and x: "x = K * K + q * K + s" and z: "z = K + q div 2"
  shows "x < (z + 1)\<^sup>2 \<and> 8 * z\<^sup>2 \<le> 9 * x"
proof
  have hi: "2 * z \<le> 2 * K + q" and lo: "2 * K + (q + 1) \<le> 2 * (z + 1)" using z by presburger+
  have z0: "0 \<le> z" using K z by simp
  have "(2 * K + (q + 1))\<^sup>2 \<le> (2 * (z + 1))\<^sup>2"
    by (rule power_mono [OF lo]) (use K in simp)
  moreover have "4 * x < (2 * K + (q + 1))\<^sup>2"
  proof -
    have "(2 * K + (q + 1))\<^sup>2 = 4 * x + (4 * (K - s) + q * q + 2 * q + 1)"
      by (simp add: x power2_eq_square algebra_simps)
    moreover have "0 < 4 * (K - s) + q * q + 2 * q + 1" using K by (simp add: add_pos_nonneg)
    ultimately show ?thesis by linarith
  qed
  ultimately show "x < (z + 1)\<^sup>2" unfolding power_mult_distrib by simp
  have "(2 * z)\<^sup>2 \<le> (2 * K + q)\<^sup>2"
    by (rule power_mono [OF hi]) (use z0 in simp)
  moreover have "2 * (2 * K + q)\<^sup>2 \<le> 9 * x"
  proof -
    have "9 * x = 2 * (2 * K + q)\<^sup>2 + K * K + K * q - 2 * (q * q) + 9 * s"
      by (simp add: x power2_eq_square algebra_simps)
    moreover have "q * q \<le> K * q" "K * q \<le> K * K" using K by (simp_all add: mult_right_mono)
    ultimately show ?thesis using K by linarith
  qed
  ultimately show "8 * z\<^sup>2 \<le> 9 * x" by (simp add: power_mult_distrib)
qed

lemma approx_sqrt_odd_case:
  fixes K q s z :: int
  assumes K: "0 < K" "0 \<le> q" "q < K" "0 \<le> s" "s < 2 * K"
    and x: "x = 2 * K * K + 2 * q * K + s" and z: "z = K + (K + q) div 2"
  shows "x < (z + 1)\<^sup>2 \<and> 8 * z\<^sup>2 \<le> 9 * x"
proof
  have hi: "2 * z \<le> 3 * K + q" and lo: "3 * K + (q + 1) \<le> 2 * (z + 1)" using z by presburger+
  have z0: "0 \<le> z" using K z by simp
  have "(3 * K + (q + 1))\<^sup>2 \<le> (2 * (z + 1))\<^sup>2"
    by (rule power_mono [OF lo]) (use K in simp)
  moreover have "4 * x < (3 * K + (q + 1))\<^sup>2"
  proof -
    have "0 \<le> (K - (q + 1))\<^sup>2" by simp
    then show ?thesis using K by (simp add: x power2_eq_square algebra_simps)
  qed
  ultimately show "x < (z + 1)\<^sup>2" unfolding power_mult_distrib by simp
  have "(2 * z)\<^sup>2 \<le> (3 * K + q)\<^sup>2"
    by (rule power_mono [OF hi]) (use z0 in simp)
  moreover have "2 * (3 * K + q)\<^sup>2 \<le> 9 * x"
  proof -
    have "9 * x = 2 * (3 * K + q)\<^sup>2 + 6 * (K * q) - 2 * (q * q) + 9 * s"
      by (simp add: x power2_eq_square algebra_simps)
    moreover have "q * q \<le> K * q" "0 \<le> K * q" using K by (simp_all add: mult_right_mono)
    ultimately show ?thesis using K by linarith
  qed
  ultimately show "8 * z\<^sup>2 \<le> 9 * x" by (simp add: power_mult_distrib)
qed

lemma uint128_approx_sqrt_bounds:
  assumes msb: "msb_index find_msb" and x: "0 < x" "x \<le> uint128_max"
  shows "x < (uint128_approx_sqrt find_msb x + 1)\<^sup>2
         \<and> 8 * (uint128_approx_sqrt find_msb x)\<^sup>2 \<le> 9 * x"
proof -
  define m where "m = uint128_find_msb find_msb x"
  define k where "k = m div 2"
  define r where "r = x - 2 ^ m"
  define q where "q = r div 2 ^ (m - k)"
  define s where "s = r mod 2 ^ (m - k)"
  define K :: int where "K = 2 ^ k"
  note A = approx_sqrt_arith [OF x msb m_def k_def r_def q_def]
  have rs: "r = q * 2 ^ (m - k) + s" by (simp only: q_def s_def div_mult_mod_eq)
  have s: "0 \<le> s" "s < 2 ^ (m - k)" by (simp_all add: s_def)
  have Kq: "0 < K" "0 \<le> q" "q < K" using A by (simp_all add: K_def)
  show ?thesis
  proof (cases "odd m")
    case True
    then have m2: "m = k + k + 1" by (simp add: k_def) presburger
    then have mk: "(2::int) ^ (m - k) = 2 * K" by (simp add: K_def)
    have "x = 2 * K * K + 2 * q * K + s"
      using rs mk by (simp add: r_def m2 K_def power_add)
    with approx_sqrt_odd_case [OF Kq s(1)] s(2) mk A(1) True show ?thesis
      by (simp add: K_def)
  next
    case False
    then have m2: "m = k + k" by (simp add: k_def) presburger
    then have mk: "(2::int) ^ (m - k) = K" by (simp add: K_def)
    have "x = K * K + q * K + s"
      using rs mk by (simp add: r_def m2 K_def power_add)
    with approx_sqrt_even_case [OF Kq s(1)] s(2) mk A(1) False show ?thesis
      by (simp add: K_def)
  qed
qed

section \<open>Properties\<close>

definition checked :: "int_limits \<Rightarrow> int \<Rightarrow> int result" where
  "checked T r = (if in_limits T r then Inr r
     else Inl (if r > lim_max T then Overflow_Exception else Underflow_Exception))"

text \<open>
  Property C12. The checked addition, subtraction and multiplication return the exact result
  when it fits the type, and throw overflow or underflow, by the side on which it does not
  fit, otherwise.
\<close>

theorem safe_arithmetic_exact:
  assumes "machine_limits T" "in_limits T a" "in_limits T b"
  shows "safe_add T a b = checked T (a + b) \<and> safe_sub T a b = checked T (a - b)
    \<and> safe_mul T a b = checked T (a * b)"
  by (simp add: safe_add_exact [OF assms] safe_sub_exact [OF assms] safe_mul_exact [OF assms] checked_def)

theorem safe_arithmetic_exact_witness:
  "safe_mul int64_limits 4294967296 (-4294967296) = Inl Underflow_Exception"
  using safe_arithmetic_exact [OF machine_int64, of 4294967296 "-4294967296"]
  by (simp add: in_int64_def checked_def)

text \<open>
  Property C13. The saturating addition and subtraction, computed with wrapping unsigned
  arithmetic and sign-bit tests, are the exact sum and difference clamped to the range of
  the signed type, at every width.
\<close>

theorem signed_sat_clamps:
  fixes x y :: "'a::len word"
  shows "sint (signed_sat_add x y) = clamp_signed LENGTH('a) (sint x + sint y)
    \<and> sint (signed_sat_sub x y) = clamp_signed LENGTH('a) (sint x - sint y)"
  by (simp add: sint_signed_sat_add sint_signed_sat_sub)

text \<open>
  Property C14. The two halves of the full product of two 128-bit integers are the exact
  256-bit product.
\<close>

theorem uint128_full_product_exact:
  "(case uint128_full_product a b of (hi, lo) \<Rightarrow> uint hi * 2 ^ 128 + uint lo) = uint a * uint b"
  using uint128_full_product_correct [of a b] by (cases "uint128_full_product a b") auto

text \<open>
  Property C15. The approximate square root of a positive 128-bit integer is never below the
  integer square root, and its square exceeds the argument by at most one eighth. The only
  assumption is that Boost's \<open>find_msb\<close> returns the index of the most significant bit.
\<close>

theorem uint128_approx_sqrt_close:
  assumes "msb_index find_msb" "0 < x" "x \<le> uint128_max"
  shows "x < (uint128_approx_sqrt find_msb x + 1)\<^sup>2
         \<and> 8 * (uint128_approx_sqrt find_msb x)\<^sup>2 \<le> 9 * x"
  by (rule uint128_approx_sqrt_bounds [OF assms])

fun msb_loop :: "nat \<Rightarrow> int \<Rightarrow> nat" where
  "msb_loop 0 x = 0"
| "msb_loop (Suc n) x = (if x < 2 then 0 else Suc (msb_loop n (x div 2)))"

lemma msb_loop_bounds:
  "0 < x \<Longrightarrow> x < 2 ^ Suc n \<Longrightarrow> 2 ^ msb_loop n x \<le> x \<and> x < 2 ^ Suc (msb_loop n x)"
proof (induction n arbitrary: x)
  case (Suc n)
  show ?case
  proof (cases "x < 2")
    case False
    then have "0 < x div 2" "x div 2 < 2 ^ Suc n"
      using Suc.prems by (auto simp: int_div_less_iff)
    from Suc.IH [OF this] show ?thesis using False by auto
  qed (use Suc.prems in auto)
qed auto

lemma msb_loop_index: "msb_index (msb_loop 63)"
  unfolding msb_index_def using msb_loop_bounds [of _ 63] by simp

theorem uint128_approx_sqrt_close_witness:
  "(1000000::int) < (uint128_approx_sqrt (msb_loop 63) 1000000 + 1)\<^sup>2
   \<and> 8 * (uint128_approx_sqrt (msb_loop 63) 1000000)\<^sup>2 \<le> 9 * 1000000"
  by (rule uint128_approx_sqrt_close [OF msb_loop_index]) simp_all

end
