(* ===== verification/Resource_Dynamics.thy ===== *)
theory Resource_Dynamics
  imports Fc_Integers
begin

text \<open>
  \<open>chain/util/rd.cpp\<close> with its headers \<open>rd_dynamics.hpp\<close> and \<open>rd_setup.hpp\<close>: the resource
  pools that fill by a budget and decay proportionally. The lemmas show that the assertions
  at the end of \<open>rd_setup_dynamics_params\<close> never fail for validated parameters, that the pool
  stays within its bounds, and that iterating \<open>rd_apply\<close> reaches the equilibrium and stays there.
\<close>

section \<open>The code\<close>

record rd_decay_params =
  decay_per_time_unit :: int
  decay_per_time_unit_denom_shift :: int

record rd_dynamics_params =
  rd_resource_unit :: int
  rd_budget_per_time_unit :: int
  pool_eq :: int
  max_pool_size :: int
  decay_params :: rd_decay_params
  min_decay :: int

record rd_user_params =
  user_budget_per_time_unit :: int
  user_decay_per_time_unit :: int

record rd_system_params =
  sys_resource_unit :: int
  sys_decay_per_time_unit_denom_shift :: int

definition HIVE_RD_DECAY_DENOM_SHIFT :: nat where "HIVE_RD_DECAY_DENOM_SHIFT = 36"

definition HIVE_RD_MAX_BUDGET :: int where
  "HIVE_RD_MAX_BUDGET = min (2 ^ (64 + 6 - 36) - 1) (min (2 ^ (64 - 36) - 1) int32_max)"

definition HIVE_RD_MIN_BUDGET :: int where "HIVE_RD_MIN_BUDGET = 1"
definition HIVE_RD_MIN_DECAY :: int where "HIVE_RD_MIN_DECAY = 2 ^ 6"
definition HIVE_RD_MAX_DECAY :: int where "HIVE_RD_MAX_DECAY = 4294967295"

definition rd_validate_user_params :: "rd_user_params \<Rightarrow> unit result" where
  "rd_validate_user_params u =
     fc_assert (user_budget_per_time_unit u \<ge> HIVE_RD_MIN_BUDGET) ''budget_per_time_unit >= HIVE_RD_MIN_BUDGET''
     (fc_assert (user_budget_per_time_unit u \<le> HIVE_RD_MAX_BUDGET) ''budget_per_time_unit <= HIVE_RD_MAX_BUDGET''
     (fc_assert (user_decay_per_time_unit u \<ge> HIVE_RD_MIN_DECAY) ''decay_per_time_unit >= HIVE_RD_MIN_DECAY''
     (fc_assert (user_decay_per_time_unit u \<le> HIVE_RD_MAX_DECAY) ''decay_per_time_unit <= HIVE_RD_MAX_DECAY''
     (Inr ()))))"

text \<open>
  The recursive call for a negative pool is made on a non-negative one, except for the least
  64-bit value, whose negation is undefined.
\<close>

definition rd_pool_decay_nonneg :: "rd_decay_params \<Rightarrow> int \<Rightarrow> int \<Rightarrow> int result" where
  "rd_pool_decay_nonneg dp current_pool dt =
     (let decay_amount = cast_u64 (decay_per_time_unit dp * dt);
          decay_amount = cast_u128 (decay_amount * current_pool);
          decay_amount = drop_bit (nat (decay_per_time_unit_denom_shift dp)) decay_amount
      in rbind (uint128_to_uint64 decay_amount) (\<lambda>result.
           Inr (if result > current_pool then current_pool else cast_i64 result)))"

definition rd_compute_pool_decay :: "rd_decay_params \<Rightarrow> int \<Rightarrow> int \<Rightarrow> int result" where
  "rd_compute_pool_decay dp current_pool dt =
     (if current_pool < 0 then
        if current_pool = int64_min then Inl (Undefined_Behaviour ''-current_pool'')
        else rbind (rd_pool_decay_nonneg dp (- current_pool) dt) (\<lambda>d. Inr (- d))
      else rd_pool_decay_nonneg dp current_pool dt)"

definition rd_apply :: "rd_dynamics_params \<Rightarrow> int \<Rightarrow> int result" where
  "rd_apply rd pool =
     rbind (rd_compute_pool_decay (decay_params rd) pool 1) (\<lambda>decay.
       let budget = rd_budget_per_time_unit rd;
           max_size = cast_i64 (max_pool_size rd);
           decay = max decay (min_decay rd);
           new_pool = cast_i64 (pool + budget - decay);
           new_pool = min new_pool max_size;
           new_pool = max new_pool 0
       in Inr new_pool)"

definition check_pool_eq :: "rd_dynamics_params \<Rightarrow> int \<Rightarrow> bool result" where
  "check_pool_eq dparams pool =
     rbind (rd_compute_pool_decay (decay_params dparams) (cast_i64 pool) 1) (\<lambda>decay.
       Inr (decay \<ge> rd_budget_per_time_unit dparams))"

text \<open>
  \<open>dparams_out\<close> is an out-parameter: fields the function does not assign (\<open>min_decay\<close>) keep
  the caller's value.
\<close>

definition rd_setup_dynamics_params ::
  "rd_user_params \<Rightarrow> rd_system_params \<Rightarrow> rd_dynamics_params \<Rightarrow> rd_dynamics_params result" where
  "rd_setup_dynamics_params u sys dparams_out =
     (let out = dparams_out\<lparr>
            rd_resource_unit := sys_resource_unit sys,
            rd_budget_per_time_unit := user_budget_per_time_unit u,
            decay_params := \<lparr>decay_per_time_unit = user_decay_per_time_unit u,
              decay_per_time_unit_denom_shift = cast_u8 (sys_decay_per_time_unit_denom_shift sys)\<rparr>\<rparr>
      in fc_assert (sys_decay_per_time_unit_denom_shift sys = int HIVE_RD_DECAY_DENOM_SHIFT)
           ''decay_per_time_unit_denom_shift == HIVE_RD_DECAY_DENOM_SHIFT''
         (if user_decay_per_time_unit u = 0 then Inl (Undefined_Behaviour ''division by zero'')
          else
            let temp = cast_u128 (user_budget_per_time_unit u);
                temp = cast_u128 (push_bit (nat (sys_decay_per_time_unit_denom_shift sys)) temp);
                temp = cast_u128 (temp + cast_u32 (user_decay_per_time_unit u - 1));
                temp = temp div user_decay_per_time_unit u
            in rbind (uint128_to_uint64 temp) (\<lambda>eq.
               let out = out\<lparr>pool_eq := eq, max_pool_size := eq\<rparr> in
               rbind (check_pool_eq out (pool_eq out)) (\<lambda>balanced.
               fc_assert balanced ''check_pool_eq( dparams_out, dparams_out.pool_eq )''
               (rbind (check_pool_eq out (cast_u64 (pool_eq out - 1))) (\<lambda>below.
                fc_assert (\<not> below) ''!check_pool_eq( dparams_out, dparams_out.pool_eq-1 )''
                (Inr out)))))))"

section \<open>The equilibrium\<close>

abbreviation decay_unit :: int where "decay_unit \<equiv> 68719476736"

lemma rd_compute_pool_decay_value:
  assumes "0 \<le> pool" "pool \<le> int64_max" "0 \<le> decay_per_time_unit dp"
    "decay_per_time_unit dp \<le> uint32_max" "decay_per_time_unit_denom_shift dp = 36"
  shows "rd_compute_pool_decay dp pool 1 = Inr (min pool (decay_per_time_unit dp * pool div decay_unit))"
proof -
  define d where "d = decay_per_time_unit dp"
  have d: "0 \<le> d" "d \<le> uint32_max" using assms by (simp_all add: d_def)
  have "d * pool \<le> uint128_max" using assms d by (intro mult_le_uint128) auto
  moreover have "0 \<le> d * pool" using assms d by simp
  moreover have "d * pool div decay_unit \<le> pool"
  proof -
    have "d * pool \<le> decay_unit * pool" using d assms by (intro mult_right_mono) auto
    then have "d * pool div decay_unit \<le> decay_unit * pool div decay_unit" by (rule zdiv_mono1) simp
    then show ?thesis by simp
  qed
  moreover have "0 \<le> d * pool div decay_unit"
    using d assms by (simp add: pos_imp_zdiv_nonneg_iff)
  ultimately show ?thesis
    using assms d
    by (simp add: rd_compute_pool_decay_def rd_pool_decay_nonneg_def Let_def drop_bit_eq_div
        uint128_to_uint64_def cast_simps min_def flip: d_def)
qed

lemma ceil_div_bounds:
  fixes b d :: int
  assumes "0 < d"
  shows "b \<le> d * ((b + (d - 1)) div d)" "d * ((b + (d - 1)) div d - 1) < b"
proof -
  have eq: "d * ((b + (d - 1)) div d) = b + (d - 1) - (b + (d - 1)) mod d"
    by (simp add: minus_mod_eq_mult_div)
  have "0 \<le> (b + (d - 1)) mod d" "(b + (d - 1)) mod d < d" using assms by simp_all
  with eq show "b \<le> d * ((b + (d - 1)) div d)" "d * ((b + (d - 1)) div d - 1) < b"
    by (simp_all add: right_diff_distrib)
qed

definition equilibrium :: "int \<Rightarrow> int \<Rightarrow> int" where
  "equilibrium b d = (b * decay_unit + (d - 1)) div d"

lemma equilibrium_bounds:
  assumes b: "1 \<le> b" "b \<le> 268435455" and d: "64 \<le> d" "d \<le> uint32_max"
  shows "b \<le> equilibrium b d" "equilibrium b d \<le> 2 ^ 60"
    "d * equilibrium b d div decay_unit = b"
    "\<And>x. x < equilibrium b d \<Longrightarrow> d * x div decay_unit < b"
proof -
  define q where "q = equilibrium b d"
  note c = ceil_div_bounds [of d "b * decay_unit", folded equilibrium_def, folded q_def]
  have lo: "b * decay_unit \<le> d * q" and hi: "d * (q - 1) < b * decay_unit" using c d by simp_all
  have q0: "0 < q"
  proof (rule ccontr)
    assume "\<not> 0 < q"
    then have "d * q \<le> 0" using d by (simp add: mult_nonneg_nonpos)
    with lo b show False by simp
  qed
  have "d * q \<le> decay_unit * q" using d q0 by (intro mult_right_mono) auto
  with lo show "b \<le> equilibrium b d" unfolding q_def [symmetric] by linarith
  have "64 * (q - 1) \<le> d * (q - 1)" using d q0 by (intro mult_right_mono) auto
  with hi b show "equilibrium b d \<le> 2 ^ 60" unfolding q_def [symmetric] by simp
  have up: "d * q < (b + 1) * decay_unit"
    using hi d by (simp add: algebra_simps)
  have "b \<le> d * q div decay_unit"
    using zdiv_mono1 [OF lo, of decay_unit] by simp
  moreover have "d * q div decay_unit < b + 1"
    using up by (simp add: int_div_less_iff)
  ultimately show "d * equilibrium b d div decay_unit = b" unfolding q_def [symmetric] by simp
  fix x assume "x < equilibrium b d"
  then have "d * x \<le> d * (q - 1)" using d by (simp add: q_def)
  with hi have "d * x < b * decay_unit" by linarith
  then show "d * x div decay_unit < b" by (simp add: int_div_less_iff)
qed

lemma rd_validate_bounds:
  "rd_validate_user_params u = Inr () \<longleftrightarrow>
     1 \<le> user_budget_per_time_unit u \<and> user_budget_per_time_unit u \<le> 268435455
     \<and> 64 \<le> user_decay_per_time_unit u \<and> user_decay_per_time_unit u \<le> uint32_max"
  by (auto simp: rd_validate_user_params_def result_simps HIVE_RD_MIN_BUDGET_def
      HIVE_RD_MAX_BUDGET_def HIVE_RD_MIN_DECAY_def HIVE_RD_MAX_DECAY_def)

lemma rd_setup_value:
  assumes v: "rd_validate_user_params u = Inr ()"
    and sh: "sys_decay_per_time_unit_denom_shift sys = int HIVE_RD_DECAY_DENOM_SHIFT"
  defines "b \<equiv> user_budget_per_time_unit u" and "d \<equiv> user_decay_per_time_unit u"
  shows "rd_setup_dynamics_params u sys out =
    Inr (out\<lparr>rd_resource_unit := sys_resource_unit sys, rd_budget_per_time_unit := b,
      decay_params := \<lparr>decay_per_time_unit = d, decay_per_time_unit_denom_shift = 36\<rparr>,
      pool_eq := equilibrium b d, max_pool_size := equilibrium b d\<rparr>)"
proof -
  have r: "1 \<le> b" "b \<le> 268435455" "64 \<le> d" "d \<le> uint32_max"
    using v by (simp_all add: rd_validate_bounds b_def d_def)
  note e = equilibrium_bounds [OF r]
  define q where "q = equilibrium b d"
  have q: "1 \<le> q" "q \<le> 2 ^ 60" using e r by (simp_all add: q_def)
  have t: "(b * decay_unit + (d - 1)) div d = q" by (simp add: q_def equilibrium_def)
  let ?dp = "\<lparr>decay_per_time_unit = d, decay_per_time_unit_denom_shift = 36\<rparr>"
  have dec: "rd_compute_pool_decay ?dp x 1 = Inr (min x (d * x div decay_unit))"
    if "0 \<le> x" "x \<le> q" for x
    using rd_compute_pool_decay_value [of x ?dp] that q r by simp
  have at: "b \<le> min q (d * q div decay_unit)" using e by (simp add: q_def)
  have below: "\<not> b \<le> min (q - 1) (d * (q - 1) div decay_unit)"
    using e(4) [of "q - 1"] by (simp add: q_def)
  have casts: "cast_i64 q = q" "cast_i64 (q - 1) = q - 1" "cast_u64 (q - 1) = q - 1"
    using q by (simp_all add: cast_simps)
  show ?thesis
    unfolding rd_setup_dynamics_params_def check_pool_eq_def
    using r q sh dec [of q] dec [of "q - 1"] at below casts
    by (simp add: Let_def HIVE_RD_DECAY_DENOM_SHIFT_def cast_u8_def cast_simps push_bit_eq_mult t
        uint128_to_uint64_def flip: b_def d_def q_def)
qed

text \<open>
  Property C28. For parameters that pass validation the setup always succeeds: its two
  assertions about the equilibrium never fail, and the equilibrium is the smallest pool at
  which the decay reaches the budget.
\<close>

theorem rd_setup_never_asserts:
  assumes "rd_validate_user_params u = Inr ()"
    and "sys_decay_per_time_unit_denom_shift sys = int HIVE_RD_DECAY_DENOM_SHIFT"
  shows "\<exists>rd. rd_setup_dynamics_params u sys out = Inr rd
    \<and> check_pool_eq rd (pool_eq rd) = Inr True
    \<and> (\<forall>x. 0 \<le> x \<and> x < pool_eq rd \<longrightarrow> check_pool_eq rd x = Inr False)"
proof -
  have r: "1 \<le> user_budget_per_time_unit u" "user_budget_per_time_unit u \<le> 268435455"
    "64 \<le> user_decay_per_time_unit u" "user_decay_per_time_unit u \<le> uint32_max"
    using assms(1) by (simp_all add: rd_validate_bounds)
  note e = equilibrium_bounds [OF r]
  have dec: "rd_compute_pool_decay \<lparr>decay_per_time_unit = user_decay_per_time_unit u,
        decay_per_time_unit_denom_shift = 36\<rparr> (cast_i64 x) 1
      = Inr (min x (user_decay_per_time_unit u * x div decay_unit))"
    if "0 \<le> x" "x \<le> equilibrium (user_budget_per_time_unit u) (user_decay_per_time_unit u)" for x
    using that e(2) r by (simp add: rd_compute_pool_decay_value cast_simps)
  have "\<not> user_budget_per_time_unit u \<le> user_decay_per_time_unit u * x div decay_unit"
    if "x < equilibrium (user_budget_per_time_unit u) (user_decay_per_time_unit u)" for x
    using e(4) [OF that] by simp
  with e(1,3) r show ?thesis
    unfolding rd_setup_value [OF assms] check_pool_eq_def by (simp add: dec)
qed

definition sample_rd_user :: rd_user_params where
  "sample_rd_user = \<lparr>user_budget_per_time_unit = 797, user_decay_per_time_unit = 347321\<rparr>"

definition sample_rd_system :: rd_system_params where
  "sample_rd_system = \<lparr>sys_resource_unit = 10000, sys_decay_per_time_unit_denom_shift = 36\<rparr>"

definition sample_rd :: rd_dynamics_params where
  "sample_rd = \<lparr>rd_resource_unit = 10000, rd_budget_per_time_unit = 797, pool_eq = 157691079,
     max_pool_size = 157691079, decay_params = \<lparr>decay_per_time_unit = 347321,
     decay_per_time_unit_denom_shift = 36\<rparr>, min_decay = 0\<rparr>"

lemma sample_rd_valid:
  "rd_validate_user_params sample_rd_user = Inr ()"
  "sys_decay_per_time_unit_denom_shift sample_rd_system = int HIVE_RD_DECAY_DENOM_SHIFT"
  by (simp_all add: rd_validate_bounds sample_rd_user_def sample_rd_system_def HIVE_RD_DECAY_DENOM_SHIFT_def)

theorem rd_setup_never_asserts_witness:
  "\<exists>rd. rd_setup_dynamics_params sample_rd_user sample_rd_system sample_rd = Inr rd
    \<and> check_pool_eq rd (pool_eq rd) = Inr True"
  using rd_setup_never_asserts [OF sample_rd_valid, of sample_rd] by blast

section \<open>Iterating the dynamics\<close>

definition rd_balanced :: "rd_dynamics_params \<Rightarrow> bool" where
  "rd_balanced rd \<longleftrightarrow>
     (\<exists>b d. 1 \<le> b \<and> b \<le> 268435455 \<and> 64 \<le> d \<and> d \<le> uint32_max \<and> rd_budget_per_time_unit rd = b
        \<and> decay_params rd = \<lparr>decay_per_time_unit = d, decay_per_time_unit_denom_shift = 36\<rparr>
        \<and> pool_eq rd = equilibrium b d \<and> max_pool_size rd = equilibrium b d
        \<and> min_decay rd < b \<and> int64_min \<le> min_decay rd)"

lemma rd_setup_balanced:
  assumes "rd_validate_user_params u = Inr ()"
    and "sys_decay_per_time_unit_denom_shift sys = int HIVE_RD_DECAY_DENOM_SHIFT"
    and "rd_setup_dynamics_params u sys out = Inr rd"
    and "min_decay out < user_budget_per_time_unit u" "int64_min \<le> min_decay out"
  shows "rd_balanced rd"
  using assms by (auto simp: rd_setup_value rd_validate_bounds rd_balanced_def)

lemma rd_apply_step:
  assumes "rd_balanced rd" "0 \<le> pool" "pool \<le> pool_eq rd"
  obtains p where "rd_apply rd pool = Inr p" "p \<le> pool_eq rd"
    "if pool = pool_eq rd then p = pool else pool < p"
proof -
  obtain b d where bd: "1 \<le> b" "b \<le> 268435455" "64 \<le> d" "d \<le> uint32_max"
    "rd_budget_per_time_unit rd = b"
    "decay_params rd = \<lparr>decay_per_time_unit = d, decay_per_time_unit_denom_shift = 36\<rparr>"
    "pool_eq rd = equilibrium b d" "max_pool_size rd = equilibrium b d"
    "min_decay rd < b" "int64_min \<le> min_decay rd"
    using assms(1) by (auto simp: rd_balanced_def)
  define q where "q = equilibrium b d"
  note e = equilibrium_bounds [OF bd(1-4), folded q_def]
  define x where "x = max (min pool (d * pool div decay_unit)) (min_decay rd)"
  have "0 \<le> d * pool div decay_unit" using assms(2) bd by (simp add: pos_imp_zdiv_nonneg_iff)
  then have x0: "0 \<le> x" using assms(2) by (simp add: x_def le_max_iff_disj)
  have xq: "if pool = q then x = b else x < b"
  proof (cases "pool = q")
    case False
    then have "d * pool div decay_unit < b" using e(4) [of pool] assms(3) bd(7) by (simp add: q_def)
    then show ?thesis using False bd(9) by (simp add: x_def min_less_iff_disj)
  qed (use e bd in \<open>auto simp: x_def\<close>)
  have pq: "pool \<le> q" "q \<le> 2 ^ 60" "b \<le> q" using assms(3) bd(7) e by (simp_all add: q_def)
  have xb: "x \<le> b" using xq by (auto split: if_splits)
  have "cast_i64 (pool + b - x) = pool + b - x"
    using assms(2) bd(2) pq x0 xb by (intro cast_i64_id) simp_all
  moreover have "rd_compute_pool_decay (decay_params rd) pool 1 = Inr (min pool (d * pool div decay_unit))"
    using assms(2) bd pq by (simp add: rd_compute_pool_decay_value)
  moreover have "cast_i64 q = q" using pq bd by (intro cast_i64_id) simp_all
  ultimately have ap: "rd_apply rd pool = Inr (max (min (pool + b - x) q) 0)"
    using bd(5,8) by (simp add: rd_apply_def Let_def flip: x_def q_def)
  have "max (min (pool + b - x) q) 0 = min (pool + b - x) q" using assms(2) pq xb bd(1) by simp
  with ap have "rd_apply rd pool = Inr (min (pool + b - x) q)" by simp
  then show ?thesis
    by (rule that) (use xq pq bd(7) in \<open>auto simp: q_def split: if_splits\<close>)
qed

fun rd_apply_n :: "rd_dynamics_params \<Rightarrow> nat \<Rightarrow> int \<Rightarrow> int result" where
  "rd_apply_n rd 0 pool = Inr pool"
| "rd_apply_n rd (Suc n) pool = rbind (rd_apply rd pool) (rd_apply_n rd n)"

lemma rd_apply_n_reaches:
  "rd_balanced rd \<Longrightarrow> 0 \<le> pool \<Longrightarrow> pool \<le> pool_eq rd \<Longrightarrow> pool_eq rd - pool \<le> int n \<Longrightarrow>
   rd_apply_n rd n pool = Inr (pool_eq rd)"
proof (induction n arbitrary: pool)
  case (Suc n)
  obtain p where p: "rd_apply rd pool = Inr p" "p \<le> pool_eq rd"
    "if pool = pool_eq rd then p = pool else pool < p"
    using rd_apply_step Suc.prems(1-3) by blast
  then have "rd_apply_n rd n p = Inr (pool_eq rd)"
    using Suc.prems by (intro Suc.IH) (auto split: if_splits)
  with p(1) show ?case by simp
qed simp


lemma sample_rd_setup: "rd_setup_dynamics_params sample_rd_user sample_rd_system sample_rd = Inr sample_rd"
  unfolding rd_setup_value [OF sample_rd_valid]
  by (simp add: sample_rd_def sample_rd_user_def sample_rd_system_def equilibrium_def)


end
