(* ===== verification/Damm.thy ===== *)
theory Damm
  imports Fc_Integers
begin

text \<open>
  The Damm check digit of \<open>asset_symbol_type::damm_checksum_8digit\<close> (protocol/asset.cpp). The
  laws that make a check digit catch errors are the locale \<open>check_digit\<close>; the interpretation
  shows that the table of the source has them.
\<close>

section \<open>The code\<close>

text \<open>\<open>damm_checksum_8digit\<close> with its table, whose entries are ten times the Damm quasigroup.\<close>

definition damm_table :: "int list" where
  "damm_table =
     [ 0, 30, 10, 70, 50, 90, 80, 60, 40, 20,
      70,  0, 90, 20, 10, 50, 40, 80, 60, 30,
      40, 20,  0, 60, 80, 70, 10, 30, 50, 90,
      10, 70, 50,  0, 90, 80, 30, 40, 20, 60,
      60, 10, 20, 30,  0, 40, 50, 90, 70, 80,
      30, 60, 70, 40, 20,  0, 90, 50, 80, 10,
      50, 80, 60, 90, 70, 20,  0, 10, 30, 40,
      80, 90, 40, 50, 30, 60, 20,  0, 10, 70,
      90, 40, 30, 80, 60, 10, 70, 20,  0, 50,
      20, 50, 80, 10, 40, 30, 60, 70, 90,  0]"

definition damm_t :: "int \<Rightarrow> int" where
  "damm_t i = damm_table ! nat i"

definition damm_checksum_8digit :: "int \<Rightarrow> int result" where
  "damm_checksum_8digit value =
     fc_assert (value < 100000000) ''value < 100000000''
       (let q0 = value div 10; d0 = value mod 10;
            q1 = q0 div 10; d1 = q0 mod 10;
            q2 = q1 div 10; d2 = q1 mod 10;
            q3 = q2 div 10; d3 = q2 mod 10;
            q4 = q3 div 10; d4 = q3 mod 10;
            q5 = q4 div 10; d5 = q4 mod 10;
            d6 = q5 mod 10; d7 = q5 div 10;
            x = damm_t d7;
            x = damm_t (x + d6);
            x = damm_t (x + d5);
            x = damm_t (x + d4);
            x = damm_t (x + d3);
            x = damm_t (x + d2);
            x = damm_t (x + d1);
            x = damm_t (x + d0)
        in Inr (x div 10))"

section \<open>The check digit\<close>

text \<open>
  What makes Damm's scheme work: a step function on states and digits that is injective in
  the state and in the digit, and on which two different digits never commute.
\<close>

locale check_digit =
  fixes check_step :: "'s \<Rightarrow> 'd \<Rightarrow> 's" and states :: "'s set" and digits :: "'d set"
  assumes step_closed: "x \<in> states \<Longrightarrow> d \<in> digits \<Longrightarrow> check_step x d \<in> states"
    and step_inj_digit: "x \<in> states \<Longrightarrow> d \<in> digits \<Longrightarrow> e \<in> digits \<Longrightarrow>
      check_step x d = check_step x e \<Longrightarrow> d = e"
    and step_inj_state: "x \<in> states \<Longrightarrow> y \<in> states \<Longrightarrow> d \<in> digits \<Longrightarrow>
      check_step x d = check_step y d \<Longrightarrow> x = y"
    and step_no_commute: "x \<in> states \<Longrightarrow> d \<in> digits \<Longrightarrow> e \<in> digits \<Longrightarrow>
      check_step (check_step x d) e = check_step (check_step x e) d \<Longrightarrow> d = e"
begin

lemma foldl_closed: "x \<in> states \<Longrightarrow> set ds \<subseteq> digits \<Longrightarrow> foldl check_step x ds \<in> states"
  by (induction ds arbitrary: x) (auto simp: step_closed)

lemma foldl_inj_state:
  "x \<in> states \<Longrightarrow> y \<in> states \<Longrightarrow> set ds \<subseteq> digits \<Longrightarrow>
   foldl check_step x ds = foldl check_step y ds \<Longrightarrow> x = y"
proof (induction ds arbitrary: x y)
  case (Cons d ds)
  then have "check_step x d = check_step y d"
    by (intro Cons.IH [of "check_step x d" "check_step y d"]) (simp_all add: step_closed)
  with Cons.prems show ?case using step_inj_state [of x y d] by simp
qed simp

lemma single_error:
  assumes "x \<in> states" "set pre \<subseteq> digits" "set suf \<subseteq> digits" "d \<in> digits" "e \<in> digits"
    and "foldl check_step x (pre @ d # suf) = foldl check_step x (pre @ e # suf)"
  shows "d = e"
proof -
  define y where "y = foldl check_step x pre"
  have y: "y \<in> states" unfolding y_def by (rule foldl_closed [OF assms(1,2)])
  have "check_step y d = check_step y e"
    by (rule foldl_inj_state [OF step_closed [OF y assms(4)] step_closed [OF y assms(5)] assms(3)])
      (use assms(6) in \<open>simp add: y_def\<close>)
  then show ?thesis by (rule step_inj_digit [OF y assms(4,5)])
qed

lemma adjacent_swap:
  assumes "x \<in> states" "set pre \<subseteq> digits" "set suf \<subseteq> digits" "d \<in> digits" "e \<in> digits"
    and "foldl check_step x (pre @ d # e # suf) = foldl check_step x (pre @ e # d # suf)"
  shows "d = e"
proof -
  define y where "y = foldl check_step x pre"
  have y: "y \<in> states" unfolding y_def by (rule foldl_closed [OF assms(1,2)])
  have "check_step (check_step y d) e = check_step (check_step y e) d"
    by (rule foldl_inj_state [OF _ _ assms(3)])
      (use assms(4,5,6) y in \<open>simp_all add: step_closed flip: y_def\<close>)
  then show ?thesis by (rule step_no_commute [OF y assms(4,5)])
qed

end

definition damm_step :: "int \<Rightarrow> int \<Rightarrow> int" where
  "damm_step x d = damm_t (x + d)"

definition damm_states :: "int list" where
  "damm_states = [0, 10, 20, 30, 40, 50, 60, 70, 80, 90]"

definition decimal_digits :: "int list" where
  "decimal_digits = [0, 1, 2, 3, 4, 5, 6, 7, 8, 9]"

lemma damm_t_values:
  "damm_t 0 = 0" "damm_t 1 = 30" "damm_t 2 = 10" "damm_t 3 = 70" "damm_t 4 = 50"
  "damm_t 5 = 90" "damm_t 6 = 80" "damm_t 7 = 60" "damm_t 8 = 40" "damm_t 9 = 20"
  "damm_t 10 = 70" "damm_t 11 = 0" "damm_t 12 = 90" "damm_t 13 = 20" "damm_t 14 = 10"
  "damm_t 15 = 50" "damm_t 16 = 40" "damm_t 17 = 80" "damm_t 18 = 60" "damm_t 19 = 30"
  "damm_t 20 = 40" "damm_t 21 = 20" "damm_t 22 = 0" "damm_t 23 = 60" "damm_t 24 = 80"
  "damm_t 25 = 70" "damm_t 26 = 10" "damm_t 27 = 30" "damm_t 28 = 50" "damm_t 29 = 90"
  "damm_t 30 = 10" "damm_t 31 = 70" "damm_t 32 = 50" "damm_t 33 = 0" "damm_t 34 = 90"
  "damm_t 35 = 80" "damm_t 36 = 30" "damm_t 37 = 40" "damm_t 38 = 20" "damm_t 39 = 60"
  "damm_t 40 = 60" "damm_t 41 = 10" "damm_t 42 = 20" "damm_t 43 = 30" "damm_t 44 = 0"
  "damm_t 45 = 40" "damm_t 46 = 50" "damm_t 47 = 90" "damm_t 48 = 70" "damm_t 49 = 80"
  "damm_t 50 = 30" "damm_t 51 = 60" "damm_t 52 = 70" "damm_t 53 = 40" "damm_t 54 = 20"
  "damm_t 55 = 0" "damm_t 56 = 90" "damm_t 57 = 50" "damm_t 58 = 80" "damm_t 59 = 10"
  "damm_t 60 = 50" "damm_t 61 = 80" "damm_t 62 = 60" "damm_t 63 = 90" "damm_t 64 = 70"
  "damm_t 65 = 20" "damm_t 66 = 0" "damm_t 67 = 10" "damm_t 68 = 30" "damm_t 69 = 40"
  "damm_t 70 = 80" "damm_t 71 = 90" "damm_t 72 = 40" "damm_t 73 = 50" "damm_t 74 = 30"
  "damm_t 75 = 60" "damm_t 76 = 20" "damm_t 77 = 0" "damm_t 78 = 10" "damm_t 79 = 70"
  "damm_t 80 = 90" "damm_t 81 = 40" "damm_t 82 = 30" "damm_t 83 = 80" "damm_t 84 = 60"
  "damm_t 85 = 10" "damm_t 86 = 70" "damm_t 87 = 20" "damm_t 88 = 0" "damm_t 89 = 50"
  "damm_t 90 = 20" "damm_t 91 = 50" "damm_t 92 = 80" "damm_t 93 = 10" "damm_t 94 = 40"
  "damm_t 95 = 30" "damm_t 96 = 60" "damm_t 97 = 70" "damm_t 98 = 90" "damm_t 99 = 0"
  by (simp_all add: damm_t_def damm_table_def)

lemmas damm_eval = damm_step_def damm_t_values damm_states_def decimal_digits_def

lemma damm_closed_table:
  "list_all (\<lambda>x. list_all (\<lambda>d. damm_step x d mod 10 = 0 \<and> 0 \<le> damm_step x d \<and> damm_step x d \<le> 90
     \<and> (damm_step x d = 0 \<longleftrightarrow> d = x div 10)) decimal_digits) damm_states"
  by (simp add: damm_eval)

lemma damm_row_table:
  "list_all (\<lambda>x. list_all (\<lambda>d. list_all (\<lambda>e. damm_step x d = damm_step x e \<longrightarrow> d = e)
     decimal_digits) decimal_digits) damm_states"
  by (simp add: damm_eval)

lemma damm_column_table:
  "list_all (\<lambda>d. list_all (\<lambda>x. list_all (\<lambda>y. damm_step x d = damm_step y d \<longrightarrow> x = y)
     damm_states) damm_states) decimal_digits"
  by (simp add: damm_eval)

lemma damm_commute_table:
  "list_all (\<lambda>x. list_all (\<lambda>d. list_all (\<lambda>e.
     damm_step (damm_step x d) e = damm_step (damm_step x e) d \<longrightarrow> d = e)
     decimal_digits) decimal_digits) damm_states"
  by (simp add: damm_eval)

lemma damm_states_iff: "x \<in> set damm_states \<longleftrightarrow> x mod 10 = 0 \<and> 0 \<le> x \<and> x \<le> 90"
  unfolding damm_states_def by simp presburger

lemma decimal_digits_iff: "d \<in> set decimal_digits \<longleftrightarrow> 0 \<le> d \<and> d \<le> 9"
  unfolding decimal_digits_def by simp presburger

interpretation damm: check_digit damm_step "set damm_states" "set decimal_digits"
proof unfold_locales
  fix x d assume *: "x \<in> set damm_states" "d \<in> set decimal_digits"
  then show "damm_step x d \<in> set damm_states"
    unfolding damm_states_iff [of "damm_step x d"]
    using damm_closed_table by (simp add: list_all_iff)
next
  fix x d e assume "x \<in> set damm_states" "d \<in> set decimal_digits" "e \<in> set decimal_digits"
    "damm_step x d = damm_step x e"
  then show "d = e" using damm_row_table unfolding list_all_iff by blast
next
  fix x y d assume "x \<in> set damm_states" "y \<in> set damm_states" "d \<in> set decimal_digits"
    "damm_step x d = damm_step y d"
  then show "x = y" using damm_column_table unfolding list_all_iff by blast
next
  fix x d e assume "x \<in> set damm_states" "d \<in> set decimal_digits" "e \<in> set decimal_digits"
    "damm_step (damm_step x d) e = damm_step (damm_step x e) d"
  then show "d = e" using damm_commute_table unfolding list_all_iff by blast
qed

lemma damm_step_zero:
  "x \<in> set damm_states \<Longrightarrow> d \<in> set decimal_digits \<Longrightarrow> damm_step x d = 0 \<longleftrightarrow> d = x div 10"
  using damm_closed_table unfolding list_all_iff by blast

text \<open>The unrolled code runs the steps over the eight data digits, most significant first.\<close>

definition of_digits :: "int list \<Rightarrow> int" where
  "of_digits ds = foldl (\<lambda>a d. 10 * a + d) 0 ds"

lemma of_digits_snoc: "of_digits (ds @ [d]) = 10 * of_digits ds + d"
  by (simp add: of_digits_def)

lemma of_digits_bounds:
  "set ds \<subseteq> set decimal_digits \<Longrightarrow> 0 \<le> of_digits ds \<and> of_digits ds < 10 ^ length ds"
proof (induction ds rule: rev_induct)
  case (snoc d ds)
  then show ?case by (auto simp: of_digits_snoc decimal_digits_iff)
qed (simp add: of_digits_def)

lemma damm_checksum_foldl:
  assumes "length ds = 8" "set ds \<subseteq> set decimal_digits"
  shows "damm_checksum_8digit (of_digits ds) = Inr (foldl damm_step 0 ds div 10)"
proof -
  obtain a b c d e f g h where ds: "ds = [a, b, c, d, e, f, g, h]"
    using assms(1) by (auto simp: length_Suc_conv eval_nat_numeral)
  have r: "0 \<le> a" "a \<le> 9" "0 \<le> b" "b \<le> 9" "0 \<le> c" "c \<le> 9" "0 \<le> d" "d \<le> 9"
    "0 \<le> e" "e \<le> 9" "0 \<le> f" "f \<le> 9" "0 \<le> g" "g \<le> 9" "0 \<le> h" "h \<le> 9"
    using assms(2) unfolding ds by (simp_all add: decimal_digits_iff)
  have step: "(10 * q + x) div 10 = q" "(10 * q + x) mod 10 = x" if "0 \<le> x" "x \<le> 9" for q x :: int
    using that by presburger+
  have lt: "of_digits ds < 100000000"
    using of_digits_bounds [OF assms(2)] assms(1) by simp
  have v: "of_digits ds = 10 * (10 * (10 * (10 * (10 * (10 * (10 * a + b) + c) + d) + e) + f) + g) + h"
    by (simp add: of_digits_def ds)
  have "foldl damm_step 0 ds = damm_step (damm_step (damm_step (damm_step (damm_step (damm_step
      (damm_step (damm_t a) b) c) d) e) f) g) h"
    by (simp add: ds damm_step_def)
  then show ?thesis
    unfolding damm_checksum_8digit_def fc_assert_def Let_def
    using lt r by (simp only: v step if_True damm_step_def)
qed

lemma of_digits_surj:
  "0 \<le> v \<Longrightarrow> v < 10 ^ n \<Longrightarrow> \<exists>ds. length ds = n \<and> set ds \<subseteq> set decimal_digits \<and> of_digits ds = v"
proof (induction n arbitrary: v)
  case 0
  then show ?case by (auto simp: of_digits_def)
next
  case (Suc n)
  then have "0 \<le> v div 10" "v div 10 < 10 ^ n" by (simp_all add: int_div_less_iff)
  then obtain ds where "length ds = n" "set ds \<subseteq> set decimal_digits" "of_digits ds = v div 10"
    using Suc.IH by blast
  then have "length (ds @ [v mod 10]) = Suc n \<and> set (ds @ [v mod 10]) \<subseteq> set decimal_digits
      \<and> of_digits (ds @ [v mod 10]) = v"
    by (simp add: of_digits_snoc decimal_digits_iff)
  then show ?case by blast
qed

lemma damm_checksum_digit:
  assumes "0 \<le> v" "v < 100000000"
  obtains c where "damm_checksum_8digit v = Inr c" "0 \<le> c" "c \<le> 9"
proof -
  obtain ds where ds: "length ds = 8" "set ds \<subseteq> set decimal_digits" "of_digits ds = v"
    using of_digits_surj [of v 8] assms by auto
  have "foldl damm_step 0 ds \<in> set damm_states"
    by (rule damm.foldl_closed [OF _ ds(2)]) (simp add: damm_states_def)
  then show ?thesis
    using that [of "foldl damm_step 0 ds div 10"] damm_checksum_foldl [OF ds(1,2)] ds(3)
    by (auto simp: damm_states_iff)
qed

end
