(* ===== verification/Raw.thy ===== *)
theory Raw
  imports Fc_Integers
begin

text \<open>
  The binary serialisation of \<open>fc/io/raw.hpp\<close> over the memory streams of
  \<open>fc/io/datastream.hpp\<close>: fixed-width integers, variable-length integers, booleans, strings,
  optionals, pairs and vectors. A stream being read is the list of its remaining bytes, a
  stream being written the list of the bytes written. The contract of a serialised type is
  the locale \<open>codec\<close>: unpacking what was packed gives the value and leaves the rest of the
  stream, so packed values can be concatenated and read back unambiguously.
\<close>

type_synonym byte = "8 word"

abbreviation MAX_ARRAY_ALLOC_SIZE :: nat where "MAX_ARRAY_ALLOC_SIZE \<equiv> 16777216"
abbreviation MAX_RECURSION_DEPTH :: nat where "MAX_RECURSION_DEPTH \<equiv> 20"

section \<open>The code\<close>

text \<open>\<open>datastream<const char*>::read\<close> and \<open>get\<close>.\<close>

definition stream_read :: "nat \<Rightarrow> byte list \<Rightarrow> (byte list \<times> byte list) result" where
  "stream_read n s =
     (if n \<le> length s then Inr (take n s, drop n s) else Inl (Out_Of_Range_Exception ''read''))"

fun stream_get :: "byte list \<Rightarrow> (byte \<times> byte list) result" where
  "stream_get [] = Inl (Out_Of_Range_Exception ''get'')"
| "stream_get (b # s) = Inr (b, s)"

text \<open>
  A built-in integer of \<open>n\<close> bytes is written as its memory, least significant byte first.
  Unpacking passes two templates that each count and check the depth.
\<close>

primrec pack_le :: "nat \<Rightarrow> int \<Rightarrow> byte list" where
  "pack_le 0 v = []"
| "pack_le (Suc n) v = word_of_int v # pack_le n (v div 256)"

primrec le_value :: "byte list \<Rightarrow> int" where
  "le_value [] = 0"
| "le_value (b # bs) = uint b + 256 * le_value bs"

definition depth_check :: "nat \<Rightarrow> 'a result \<Rightarrow> 'a result" where
  "depth_check depth k = fc_assert (depth \<le> MAX_RECURSION_DEPTH) ''depth <= MAX_RECURSION_DEPTH'' k"

definition unpack_uint :: "nat \<Rightarrow> nat \<Rightarrow> bool \<Rightarrow> byte list \<Rightarrow> (int \<times> byte list) result" where
  "unpack_uint n depth limit_is_disabled s =
     depth_check (depth + 1) (depth_check (depth + 2)
       (rbind (stream_read n s) (\<lambda>(bs, s'). Inr (le_value bs, s'))))"

text \<open>\<open>safe<int64_t>\<close>, the \<open>share_type\<close> of the protocol, goes through its \<open>value\<close>.\<close>

definition pack_share :: "int \<Rightarrow> byte list" where
  "pack_share v = pack_le 8 v"

definition unpack_share :: "nat \<Rightarrow> bool \<Rightarrow> byte list \<Rightarrow> (int \<times> byte list) result" where
  "unpack_share depth limit_is_disabled s =
     depth_check (depth + 1)
       (rbind (unpack_uint 8 (depth + 1) limit_is_disabled s) (\<lambda>(v, s'). Inr (cast_i64 v, s')))"

text \<open>Variable-length integers.\<close>

function pack_varint :: "int \<Rightarrow> byte list" where
  "pack_varint val =
     (let b = val mod 256 AND 127; val' = val div 128 in
      if 0 < val' then word_of_int (b OR 128) # pack_varint val' else [word_of_int b])"
  by auto
termination by (relation "measure nat") auto

declare pack_varint.simps [simp del]

definition pack_unsigned_int :: "int \<Rightarrow> byte list" where
  "pack_unsigned_int v = pack_varint v"

fun unpack_varint_loop :: "int \<Rightarrow> nat \<Rightarrow> nat \<Rightarrow> byte list \<Rightarrow> (int \<times> byte list) result" where
  "unpack_varint_loop v shift_by limit [] = Inl (Out_Of_Range_Exception ''get'')"
| "unpack_varint_loop v shift_by limit (b # s) =
     (let v' = v OR cast_u32 (push_bit shift_by (uint b AND 127)) in
      if uint b AND 128 \<noteq> 0 \<and> limit + 1 < 5 then unpack_varint_loop v' (shift_by + 7) (limit + 1) s
      else Inr (v', s))"

definition unpack_unsigned_int :: "nat \<Rightarrow> bool \<Rightarrow> byte list \<Rightarrow> (int \<times> byte list) result" where
  "unpack_unsigned_int depth limit_is_disabled s = unpack_varint_loop 0 0 0 s"

text \<open>
  \<open>signed_int\<close> uses the zigzag form. The shift of the signed value to the left wraps, the
  shift to the right is arithmetic; on reading, \<open>v\<close> is unsigned and both shifts are logical.
\<close>

definition pack_signed_int :: "int \<Rightarrow> byte list" where
  "pack_signed_int v = pack_varint (cast_u32 (cast_i32 (push_bit 1 v) XOR drop_bit 31 v))"

definition unpack_signed_int :: "nat \<Rightarrow> bool \<Rightarrow> byte list \<Rightarrow> (int \<times> byte list) result" where
  "unpack_signed_int depth limit_is_disabled s =
     rbind (unpack_varint_loop 0 0 0 s) (\<lambda>(v, s').
       let value0 = cast_i32 ((drop_bit 1 v XOR drop_bit 31 v) + (v AND 1));
           value1 = (if v AND 1 \<noteq> 0 then value0 else cast_i32 (- value0))
       in Inr (cast_i32 (- value1), s'))"

definition pack_bool :: "bool \<Rightarrow> byte list" where
  "pack_bool v = pack_le 1 (if v then 1 else 0)"

definition unpack_bool :: "nat \<Rightarrow> bool \<Rightarrow> byte list \<Rightarrow> (bool \<times> byte list) result" where
  "unpack_bool depth limit_is_disabled s =
     rbind (unpack_uint 1 (depth + 1) False s) (\<lambda>(b, s').
       fc_assert (b AND NOT 1 = 0) ''(b & ~1) == 0'' (Inr (b \<noteq> 0, s')))"

definition pack_string :: "byte list \<Rightarrow> byte list" where
  "pack_string v = pack_unsigned_int (cast_u32 (int (length v))) @ v"

definition unpack_string :: "nat \<Rightarrow> bool \<Rightarrow> byte list \<Rightarrow> (byte list \<times> byte list) result" where
  "unpack_string depth limit_is_disabled s =
     rbind (unpack_unsigned_int (depth + 1) False s) (\<lambda>(size, s').
       fc_assert (limit_is_disabled \<or> size < int MAX_ARRAY_ALLOC_SIZE)
         ''limit_is_disabled || size.value < MAX_ARRAY_ALLOC_SIZE''
         (stream_read (nat size) s'))"

definition pack_optional :: "('a \<Rightarrow> byte list) \<Rightarrow> 'a option \<Rightarrow> byte list" where
  "pack_optional pk v =
     pack_bool (v \<noteq> None) @ (case v of None \<Rightarrow> [] | Some x \<Rightarrow> pk x)"

definition unpack_optional ::
  "(nat \<Rightarrow> bool \<Rightarrow> byte list \<Rightarrow> ('a \<times> byte list) result) \<Rightarrow>
   nat \<Rightarrow> bool \<Rightarrow> byte list \<Rightarrow> ('a option \<times> byte list) result" where
  "unpack_optional upk depth limit_is_disabled s =
     depth_check (depth + 1)
       (rbind (unpack_bool (depth + 1) False s) (\<lambda>(b, s').
          if b then rbind (upk (depth + 1) limit_is_disabled s') (\<lambda>(x, s''). Inr (Some x, s''))
          else Inr (None, s')))"

definition pack_pair :: "('a \<Rightarrow> byte list) \<Rightarrow> ('b \<Rightarrow> byte list) \<Rightarrow> 'a \<times> 'b \<Rightarrow> byte list" where
  "pack_pair pk1 pk2 v = pk1 (fst v) @ pk2 (snd v)"

definition unpack_pair ::
  "(nat \<Rightarrow> bool \<Rightarrow> byte list \<Rightarrow> ('a \<times> byte list) result) \<Rightarrow>
   (nat \<Rightarrow> bool \<Rightarrow> byte list \<Rightarrow> ('b \<times> byte list) result) \<Rightarrow>
   nat \<Rightarrow> bool \<Rightarrow> byte list \<Rightarrow> (('a \<times> 'b) \<times> byte list) result" where
  "unpack_pair upk1 upk2 depth limit_is_disabled s =
     depth_check (depth + 1)
       (rbind (upk1 (depth + 1) limit_is_disabled s) (\<lambda>(x, s').
        rbind (upk2 (depth + 1) limit_is_disabled s') (\<lambda>(y, s''). Inr ((x, y), s''))))"

definition pack_vector :: "('a \<Rightarrow> byte list) \<Rightarrow> 'a list \<Rightarrow> byte list" where
  "pack_vector pk v = pack_unsigned_int (cast_u32 (int (length v))) @ concat (map pk v)"

fun unpack_elements ::
  "(byte list \<Rightarrow> ('a \<times> byte list) result) \<Rightarrow> nat \<Rightarrow> byte list \<Rightarrow> ('a list \<times> byte list) result" where
  "unpack_elements upk 0 s = Inr ([], s)"
| "unpack_elements upk (Suc n) s =
     rbind (upk s) (\<lambda>(x, s'). rbind (unpack_elements upk n s') (\<lambda>(xs, s''). Inr (x # xs, s'')))"

definition unpack_vector ::
  "nat \<Rightarrow> (nat \<Rightarrow> bool \<Rightarrow> byte list \<Rightarrow> ('a \<times> byte list) result) \<Rightarrow>
   nat \<Rightarrow> bool \<Rightarrow> byte list \<Rightarrow> ('a list \<times> byte list) result" where
  "unpack_vector sizeof upk depth limit_is_disabled s =
     depth_check (depth + 1)
       (rbind (unpack_unsigned_int 0 False s) (\<lambda>(size, s').
          fc_assert (limit_is_disabled \<or> size * int sizeof < int MAX_ARRAY_ALLOC_SIZE)
            ''limit_is_disabled || size.value*sizeof(T) < MAX_ARRAY_ALLOC_SIZE''
            (unpack_elements (upk (depth + 1) limit_is_disabled) (nat size) s')))"

section \<open>Fixed-width and variable-length integers\<close>

lemma length_pack_le [simp]: "length (pack_le n v) = n"
  by (induction n arbitrary: v) auto

lemma le_value_pack_le: "le_value (pack_le n v) = v mod 256 ^ n"
proof (induction n arbitrary: v)
  case (Suc n)
  have "le_value (pack_le (Suc n) v) = v mod 256 + 256 * (v div 256 mod 256 ^ n)"
    by (simp add: Suc uint_word_of_int)
  also have "\<dots> = v mod (256 * 256 ^ n)"
    by (simp add: zmod_zmult2_eq)
  finally show ?case by simp
qed simp

lemma stream_read_append [simp]: "length bs = n \<Longrightarrow> stream_read n (bs @ s) = Inr (bs, s)"
  by (auto simp: stream_read_def)

lemma unpack_uint_pack_le:
  "depth + 2 \<le> MAX_RECURSION_DEPTH \<Longrightarrow>
   unpack_uint n depth lim (pack_le n v @ s) = Inr (v mod 256 ^ n, s)"
  by (simp add: unpack_uint_def depth_check_def le_value_pack_le)

lemma and_127: "(b::int) AND 127 = b mod 128"
  using and_exp_minus_one [of b 7] by simp

lemma byte_and_128:
  assumes "0 \<le> (b::int)" "b < 256"
  shows "b AND 128 = (if 128 \<le> b then 128 else 0)"
proof -
  have "b div 128 = (if 128 \<le> b then 1 else 0)" using assms by auto
  then show ?thesis using and_exp [of b 7] by (auto simp: bit_iff_odd split: if_splits)
qed

lemma uint_byte: "0 \<le> b \<Longrightarrow> b < 256 \<Longrightarrow> uint (word_of_int b :: byte) = b"
  by (simp add: uint_word_of_int)

lemma pack_varint_step:
  "pack_varint val =
     (if 128 \<le> val then word_of_int (val mod 128 + 128) # pack_varint (val div 128)
      else [word_of_int (val mod 128)])"
proof -
  have "val mod 256 mod 128 = val mod 128" by (simp add: mod_mod_cancel)
  moreover have "val mod 128 OR 128 = val mod 128 + 128"
    using or_disjoint_add [of "val mod 128" 7 128] by (simp add: or.commute)
  moreover have "0 < val div 128 \<longleftrightarrow> 128 \<le> val" by (simp add: pos_imp_zdiv_pos_iff)
  ultimately show ?thesis
    by (subst pack_varint.simps) (simp add: and_127)
qed

lemma unpack_varint_pack:
  assumes "0 \<le> val" "0 \<le> v" "v < 2 ^ k" "val * 2 ^ k < 2 ^ 32" "k = 7 * limit" "limit < 5"
  shows "unpack_varint_loop v k limit (pack_varint val @ s) = Inr (v + val * 2 ^ k, s)"
  using assms
proof (induction val arbitrary: v k limit rule: pack_varint.induct)
  case (1 val)
  define lo where "lo = val mod 128"
  have lo: "0 \<le> lo" "lo < 128" by (simp_all add: lo_def)
  have "lo \<le> val" using 1(2) by (simp add: lo_def zmod_le_nonneg_dividend)
  then have "lo * 2 ^ k \<le> val * 2 ^ k" by (rule mult_right_mono) simp
  with 1(5) have "lo * 2 ^ k < 2 ^ 32" by linarith
  with lo have lok: "0 \<le> lo * 2 ^ k" "lo * 2 ^ k < 2 ^ 32" by simp_all
  then have acc: "v OR cast_u32 (push_bit k lo) = v + lo * 2 ^ k"
    using or_push_bit_add [of v k lo] 1(3,4)
    by (simp add: cast_simps push_bit_eq_mult or.commute [of v] add.commute)
  show ?case
  proof (cases "128 \<le> val")
    case True
    have "(128::int) * 2 ^ k \<le> val * 2 ^ k" by (rule mult_right_mono [OF True]) simp
    with 1(5) have "(128::int) * 2 ^ k < 2 ^ 32" by linarith
    then have "(2::int) ^ (7 + k) < 2 ^ 32" by (simp add: power_add)
    then have "7 + k < 32" by (rule power_less_imp_less_exp [rotated]) simp
    with 1(6) have lim: "limit + 1 < 5" by simp
    have "v + lo * 2 ^ k < 2 ^ k + 127 * 2 ^ k"
      using 1(4) lo by (intro add_less_le_mono mult_right_mono) auto
    then have v': "0 \<le> v + lo * 2 ^ k" "v + lo * 2 ^ k < 2 ^ (k + 7)"
      using 1(3) lok by (simp_all add: power_add)
    have split: "val = lo + 128 * (val div 128)" by (simp add: lo_def)
    have "val div 128 * 128 \<le> val" by simp
    then have "val div 128 * 2 ^ (k + 7) \<le> val * 2 ^ k"
      by (simp add: power_add mult.assoc [symmetric] mult.commute [of _ "2 ^ k"] mult_left_mono)
    with 1(5) have "val div 128 * 2 ^ (k + 7) < 2 ^ 32" by linarith
    then have "unpack_varint_loop (v + lo * 2 ^ k) (k + 7) (limit + 1) (pack_varint (val div 128) @ s)
        = Inr (v + lo * 2 ^ k + val div 128 * 2 ^ (k + 7), s)"
      using 1(2,6) lim v' True by (intro 1(1) [OF refl refl]) (auto simp: pos_imp_zdiv_pos_iff)
    moreover have "v + lo * 2 ^ k + val div 128 * 2 ^ (k + 7) = v + val * 2 ^ k"
      by (subst (2) split) (simp add: power_add algebra_simps)
    moreover have "uint (word_of_int (lo + 128) :: byte) = lo + 128"
      by (rule uint_byte) (use lo in simp_all)
    ultimately show ?thesis
      using True lim lo acc
      by (subst pack_varint_step) (simp add: byte_and_128 and_127 flip: lo_def)
  next
    case False
    then have "lo = val" using 1(2) by (simp add: lo_def)
    moreover have "uint (word_of_int lo :: byte) = lo"
      by (rule uint_byte) (use lo in simp_all)
    ultimately show ?thesis
      using False lo acc
      by (subst pack_varint_step) (simp add: byte_and_128 and_127 flip: lo_def)
  qed
qed

lemma unpack_unsigned_int_pack:
  "0 \<le> v \<Longrightarrow> v \<le> uint32_max \<Longrightarrow> unpack_unsigned_int depth lim (pack_unsigned_int v @ s) = Inr (v, s)"
  unfolding unpack_unsigned_int_def pack_unsigned_int_def
  by (subst unpack_varint_pack) auto

text \<open>The zigzag form of a signed value, and what reading it back computes.\<close>

lemma cast_u32_of_i32: "cast_u32 (cast_i32 x) = cast_u32 x"
  unfolding cast_u32_def cast_i32_def by (simp add: mod_diff_left_eq)

lemma cast_u32_not: "cast_u32 (NOT x) = cast_u32 (- x - 1)"
  by (simp add: not_int_def)

lemma cast_u32_not_i32: "cast_u32 (NOT (cast_i32 x)) = cast_u32 (- x - 1)"
proof -
  have "cast_i32 x = x - 4294967296 * ((x + 2147483648) div 4294967296)"
    unfolding cast_i32_def by (simp add: minus_mult_div_eq_mod [symmetric])
  then have "- cast_i32 x - 1 = - x - 1 + 4294967296 * ((x + 2147483648) div 4294967296)" by simp
  then have "cast_u32 (- cast_i32 x - 1) = cast_u32 (- x - 1)"
    unfolding cast_u32_def by (simp only: mod_mult_self2)
  then show ?thesis by (simp add: cast_u32_not)
qed

lemma cast_i32_neg: "0 \<le> y \<Longrightarrow> y \<le> 2147483648 \<Longrightarrow> cast_i32 (- cast_i32 y) = - y"
  by (cases "y = 2147483648") (simp_all add: cast_i32_def)

lemma cast_i32_neg_neg: "0 \<le> y \<Longrightarrow> y \<le> int32_max \<Longrightarrow> cast_i32 (- cast_i32 (- y)) = y"
  by (simp add: cast_i32_def)

lemma xor_one_range: "(w::int) XOR 1 = (if even w then w + 1 else w - 1)"
  by (simp add: xor_one_eq)

lemma zigzag_value:
  assumes "-2147483648 \<le> v" "v \<le> int32_max"
  shows "cast_u32 (cast_i32 (push_bit 1 v) XOR drop_bit 31 v) = (if 0 \<le> v then 2 * v else - 2 * v - 1)"
proof (cases "0 \<le> v")
  case True
  then have "drop_bit 31 v = 0" using assms by (simp add: drop_bit_eq_div)
  then show ?thesis
    using True assms by (simp add: push_bit_eq_mult cast_u32_of_i32 mult.commute cast_simps)
next
  case False
  have "v div 2147483648 = - 1"
    by (rule int_div_pos_eq [of _ _ _ "v + 2147483648"]) (use assms False in auto)
  then have "drop_bit 31 v = - 1" by (simp add: drop_bit_eq_div)
  then show ?thesis
    using False assms by (simp add: push_bit_eq_mult cast_u32_not_i32 mult.commute cast_simps)
qed

lemma unpack_signed_int_pack:
  assumes "-2147483648 \<le> v" "v \<le> int32_max"
  shows "unpack_signed_int depth lim (pack_signed_int v @ s) =
    Inr (if -1073741824 \<le> v \<and> v < 1073741824 then v
         else if 0 \<le> v then v XOR 1 else - ((- v - 1) XOR 1) - 1, s)"
proof -
  define z where "z = (if 0 \<le> v then 2 * v else - 2 * v - 1)"
  have z: "0 \<le> z" "z \<le> uint32_max" using assms by (auto simp: z_def)
  have rd: "unpack_varint_loop 0 0 0 (pack_varint z @ s) = Inr (z, s)"
    using unpack_varint_pack [of z 0 0 0] z by simp
  have half: "z div 2 = (if 0 \<le> v then v else - v - 1)" and one: "z mod 2 = (if 0 \<le> v then 0 else 1)"
    unfolding z_def by presburger+
  have low: "drop_bit (Suc 0) z = (if 0 \<le> v then v else - v - 1)"
    using half by (simp add: drop_bit_Suc)
  have top: "drop_bit 31 z = (if -1073741824 \<le> v \<and> v < 1073741824 then 0 else 1)"
  proof (cases "z < 2147483648")
    case True
    then show ?thesis using z assms by (auto simp: drop_bit_eq_div z_def split: if_splits)
  next
    case False
    then have "z div 2147483648 = 1"
      by (intro int_div_pos_eq [of _ _ _ "z - 2147483648"]) (use z in auto)
    then show ?thesis using False assms by (auto simp: drop_bit_eq_div z_def split: if_splits)
  qed
  have "((- v - 1) XOR 1) + 1 \<le> 2147483648 \<and> 0 \<le> ((- v - 1) XOR 1) + 1" if "v < -1073741824"
    using that assms unfolding xor_one_range by presburger
  moreover have "v XOR 1 \<le> int32_max \<and> - 2147483648 \<le> v XOR 1" if "1073741824 \<le> v"
    using that assms unfolding xor_one_range by presburger
  ultimately show ?thesis
    unfolding unpack_signed_int_def pack_signed_int_def zigzag_value [OF assms] z_def [symmetric] rd
    using assms
    by (auto simp: low one top and_one_eq Let_def
        cast_i32_neg cast_i32_neg_neg cast_simps)
qed

section \<open>The contract of a serialised type\<close>

text \<open>
  \<open>height\<close> is how many levels of the recursion limit unpacking the type uses.
\<close>

locale codec =
  fixes pk :: "'a \<Rightarrow> byte list"
    and upk :: "nat \<Rightarrow> bool \<Rightarrow> byte list \<Rightarrow> ('a \<times> byte list) result"
    and valid :: "'a \<Rightarrow> bool" and height :: nat
  assumes upk_pk: "valid x \<Longrightarrow> depth + height \<le> MAX_RECURSION_DEPTH \<Longrightarrow>
      upk depth lim (pk x @ s) = Inr (x, s)"
begin

lemma pk_unique:
  assumes "height \<le> MAX_RECURSION_DEPTH" "valid x" "valid y" "pk x @ s = pk y @ t"
  shows "x = y \<and> s = t"
proof -
  have "Inr (x, s) = upk 0 False (pk x @ s)"
    by (rule upk_pk [OF assms(2), symmetric]) (use assms(1) in simp)
  also have "\<dots> = upk 0 False (pk y @ t)" by (simp only: assms(4))
  also have "\<dots> = Inr (y, t)"
    by (rule upk_pk [OF assms(3)]) (use assms(1) in simp)
  finally show ?thesis by simp
qed

lemma unpack_elements_pack:
  "list_all valid xs \<Longrightarrow> depth + height \<le> MAX_RECURSION_DEPTH \<Longrightarrow>
   unpack_elements (upk depth lim) (length xs) (concat (map pk xs) @ s) = Inr (xs, s)"
  by (induction xs) (simp_all add: upk_pk)

lemma unpack_vector_pack:
  assumes "list_all valid xs" "length xs * sizeof < MAX_ARRAY_ALLOC_SIZE" "0 < sizeof"
    and "depth + Suc height \<le> MAX_RECURSION_DEPTH"
  shows "unpack_vector sizeof upk depth lim (pack_vector pk xs @ s) = Inr (xs, s)"
proof -
  have "length xs \<le> length xs * sizeof" using assms(3) by simp
  with assms(2) have len: "length xs < MAX_ARRAY_ALLOC_SIZE" by linarith
  have sz: "int (length xs) * int sizeof < int MAX_ARRAY_ALLOC_SIZE"
    using assms(2) by (simp flip: of_nat_mult)
  show ?thesis
    using len sz assms(1,4)
    by (simp add: unpack_vector_def pack_vector_def depth_check_def cast_simps
        unpack_unsigned_int_pack unpack_elements_pack)
qed

lemma unpack_optional_pack:
  assumes "pred_option valid v" "depth + Suc height \<le> MAX_RECURSION_DEPTH"
    "depth + 4 \<le> MAX_RECURSION_DEPTH"
  shows "unpack_optional upk depth lim (pack_optional pk v @ s) = Inr (v, s)"
  using assms
  by (cases v) (simp_all add: unpack_optional_def pack_optional_def depth_check_def upk_pk
      unpack_bool_def pack_bool_def unpack_uint_pack_le del: pack_le.simps)

end

text \<open>A vector over a serialised element type is a serialised type one level deeper.\<close>

locale vector_codec = codec +
  fixes sizeof :: nat
  assumes sizeof_pos: "0 < sizeof"

sublocale vector_codec \<subseteq> vec: codec "pack_vector pk" "unpack_vector sizeof upk"
  "\<lambda>xs. list_all valid xs \<and> length xs * sizeof < MAX_ARRAY_ALLOC_SIZE" "Suc height"
  by unfold_locales (simp add: unpack_vector_pack sizeof_pos)

definition uint_valid :: "nat \<Rightarrow> int \<Rightarrow> bool" where
  "uint_valid n v \<longleftrightarrow> 0 \<le> v \<and> v < 256 ^ n"

interpretation uint8: codec "pack_le 1" "unpack_uint 1" "uint_valid 1" 2
  by unfold_locales (simp add: unpack_uint_pack_le uint_valid_def del: pack_le.simps One_nat_def)

interpretation uint16: codec "pack_le 2" "unpack_uint 2" "uint_valid 2" 2
  by unfold_locales (simp add: unpack_uint_pack_le uint_valid_def del: pack_le.simps)

interpretation uint32: codec "pack_le 4" "unpack_uint 4" "uint_valid 4" 2
  by unfold_locales (simp add: unpack_uint_pack_le uint_valid_def del: pack_le.simps)

interpretation uint64: codec "pack_le 8" "unpack_uint 8" "uint_valid 8" 2
  by unfold_locales (simp add: unpack_uint_pack_le uint_valid_def del: pack_le.simps)

lemma cast_i64_mod: "in_int64 v \<Longrightarrow> cast_i64 (v mod 18446744073709551616) = v"
  by (simp add: cast_i64_def in_int64_def mod_add_left_eq)

interpretation share: codec pack_share unpack_share in_int64 3
  by unfold_locales
    (simp add: pack_share_def unpack_share_def depth_check_def unpack_uint_pack_le cast_i64_mod
      del: pack_le.simps)

interpretation unsigned_int: codec pack_unsigned_int unpack_unsigned_int "uint_valid 4" 0
  by unfold_locales (simp add: unpack_unsigned_int_pack uint_valid_def)

interpretation bool: codec pack_bool unpack_bool "\<lambda>_. True" 3
  by unfold_locales (simp add: unpack_bool_def pack_bool_def unpack_uint_pack_le
      del: pack_le.simps One_nat_def)

lemma unpack_string_pack:
  "length v < MAX_ARRAY_ALLOC_SIZE \<Longrightarrow> unpack_string depth lim (pack_string v @ s) = Inr (v, s)"
  by (simp add: unpack_string_def pack_string_def cast_simps unpack_unsigned_int_pack)

interpretation string: vector_codec pack_string unpack_string
  "\<lambda>v. length v < MAX_ARRAY_ALLOC_SIZE" 0 32
  by unfold_locales (simp_all add: unpack_string_pack)

text \<open>
  Property C16. A vector of strings that was packed is read back from the stream unchanged,
  and what follows it in the stream is left for the next read, as long as the strings and
  the vector stay below the allocation limit.
\<close>

theorem vector_of_strings_roundtrip:
  assumes "\<forall>x \<in> set xs. length x < MAX_ARRAY_ALLOC_SIZE" "length xs * 32 < MAX_ARRAY_ALLOC_SIZE"
    and "depth < MAX_RECURSION_DEPTH"
  shows "unpack_vector 32 unpack_string depth lim (pack_vector pack_string xs @ s) = Inr (xs, s)"
  using string.vec.upk_pk [of xs depth lim s] assms by (simp add: list_all_iff)

theorem vector_of_strings_roundtrip_witness:
  "unpack_vector 32 unpack_string 0 False (pack_vector pack_string [[1, 2], [], [255]] @ [7])
   = Inr ([[1, 2], [], [255]], [7])"
  by (rule vector_of_strings_roundtrip) simp_all

text \<open>
  Property C17. A \<open>signed_int\<close> survives packing and unpacking exactly when its value is in
  \<open>[-2^30, 2^30)\<close>; outside of that range, which the type allows, unpacking flips the lowest
  bit of the magnitude.
\<close>

theorem signed_int_roundtrip_iff:
  assumes "-2147483648 \<le> v" "v \<le> int32_max"
  shows "unpack_signed_int depth lim (pack_signed_int v @ s) = Inr (v, s)
         \<longleftrightarrow> -1073741824 \<le> v \<and> v < 1073741824"
proof -
  have "w XOR 1 \<noteq> w" for w :: int unfolding xor_one_range by auto
  from this [of v] this [of "- v - 1"] show ?thesis
    unfolding unpack_signed_int_pack [OF assms] by auto
qed

theorem signed_int_roundtrip_iff_witness:
  "unpack_signed_int 0 False (pack_signed_int 1073741824) \<noteq> Inr (1073741824, [])"
  using signed_int_roundtrip_iff [of 1073741824 0 False "[]"] by simp

end
