(* ===== verification/Asset_Symbol.thy ===== *)
theory Asset_Symbol
  imports Damm Raw
begin

text \<open>
  \<open>libraries/protocol/asset_symbol.hpp\<close>, \<open>asset.hpp\<close> and \<open>asset.cpp\<close>: asset symbols with
  their numeric asset identifiers (NAI) and the Damm check digit, the binary form of a
  symbol, assets with checked arithmetic, and prices. The lemmas show that the NAI and the
  binary form determine the symbol, that the check digit catches every single-digit and
  every adjacent-transposition error, that the price comparison is the comparison of the
  rational numbers, and that converting through a price never creates value.
\<close>

section \<open>Asset symbols\<close>

text \<open>An \<open>asset_symbol_type\<close> is its only member, the 32-bit \<open>asset_num\<close>.\<close>

type_synonym asset_symbol_type = int

definition SMT_MAX_NAI :: int where "SMT_MAX_NAI = 99999999"
definition SMT_MIN_NAI :: int where "SMT_MIN_NAI = 1"

definition HIVE_NAI_HBD :: int where "HIVE_NAI_HBD = 1"
definition HIVE_NAI_HIVE :: int where "HIVE_NAI_HIVE = 2"
definition HIVE_NAI_VESTS :: int where "HIVE_NAI_VESTS = 3"

definition HIVE_ASSET_MAX_DECIMALS :: int where "HIVE_ASSET_MAX_DECIMALS = 12"

definition HIVE_ASSET_NUM_HBD :: int where
  "HIVE_ASSET_NUM_HBD = cast_u32 (push_bit 5 (SMT_MAX_NAI + HIVE_NAI_HBD) OR 3)"

definition HIVE_ASSET_NUM_HIVE :: int where
  "HIVE_ASSET_NUM_HIVE = cast_u32 (push_bit 5 (SMT_MAX_NAI + HIVE_NAI_HIVE) OR 3)"

definition HIVE_ASSET_NUM_VESTS :: int where
  "HIVE_ASSET_NUM_VESTS = cast_u32 (push_bit 5 (SMT_MAX_NAI + HIVE_NAI_VESTS) OR 6)"

abbreviation HBD_SYMBOL :: asset_symbol_type where "HBD_SYMBOL \<equiv> HIVE_ASSET_NUM_HBD"
abbreviation HIVE_SYMBOL :: asset_symbol_type where "HIVE_SYMBOL \<equiv> HIVE_ASSET_NUM_HIVE"
abbreviation VESTS_SYMBOL :: asset_symbol_type where "VESTS_SYMBOL \<equiv> HIVE_ASSET_NUM_VESTS"

datatype asset_symbol_space = Legacy_Space | Smt_Nai_Space

definition symbol_space :: "asset_symbol_type \<Rightarrow> asset_symbol_space" where
  "symbol_space asset_num =
     (if asset_num = HIVE_ASSET_NUM_HIVE \<or> asset_num = HIVE_ASSET_NUM_HBD
         \<or> asset_num = HIVE_ASSET_NUM_VESTS
      then Legacy_Space else Smt_Nai_Space)"

definition symbol_decimals :: "asset_symbol_type \<Rightarrow> int" where
  "symbol_decimals asset_num = cast_u8 (asset_num AND 15)"

definition get_stripped_precision_smt_num :: "asset_symbol_type \<Rightarrow> int" where
  "get_stripped_precision_smt_num asset_num = asset_num AND NOT 15"

definition asset_num_from_nai :: "int \<Rightarrow> int \<Rightarrow> int result" where
  "asset_num_from_nai nai decimal_places =
     (let nai_check_digit = nai mod 10; nai_data_digits = nai div 10 in
      fc_assert (SMT_MIN_NAI \<le> nai_data_digits \<and> nai_data_digits \<le> SMT_MAX_NAI) ''NAI out of range''
      (rbind (damm_checksum_8digit nai_data_digits) (\<lambda>check.
       fc_assert (nai_check_digit = check) ''Invalid check digit''
       (if nai_data_digits = HIVE_NAI_HIVE then
          fc_assert (decimal_places = 3) ''decimal_places == HIVE_PRECISION_HIVE'' (Inr HIVE_ASSET_NUM_HIVE)
        else if nai_data_digits = HIVE_NAI_HBD then
          fc_assert (decimal_places = 3) ''decimal_places == HIVE_PRECISION_HBD'' (Inr HIVE_ASSET_NUM_HBD)
        else if nai_data_digits = HIVE_NAI_VESTS then
          fc_assert (decimal_places = 6) ''decimal_places == HIVE_PRECISION_VESTS'' (Inr HIVE_ASSET_NUM_VESTS)
        else
          fc_assert (decimal_places \<le> HIVE_ASSET_MAX_DECIMALS) ''Invalid decimal_places''
            (Inr (cast_u32 (push_bit 5 nai_data_digits) OR 16 OR decimal_places))))))"

definition to_nai :: "asset_symbol_type \<Rightarrow> int result" where
  "to_nai asset_num =
     rbind
       (if asset_num = HIVE_ASSET_NUM_HIVE then Inr HIVE_NAI_HIVE
        else if asset_num = HIVE_ASSET_NUM_HBD then Inr HIVE_NAI_HBD
        else if asset_num = HIVE_ASSET_NUM_VESTS then Inr HIVE_NAI_VESTS
        else fc_assert (symbol_space asset_num = Smt_Nai_Space) ''space() == smt_nai_space''
               (Inr (drop_bit 5 asset_num)))
       (\<lambda>nai_data_digits.
          rbind (damm_checksum_8digit nai_data_digits) (\<lambda>nai_check_digit.
            Inr (cast_u32 (nai_data_digits * 10 + nai_check_digit))))"

definition is_vesting :: "asset_symbol_type \<Rightarrow> bool result" where
  "is_vesting asset_num =
     (case symbol_space asset_num of
        Legacy_Space \<Rightarrow>
          if asset_num = HIVE_ASSET_NUM_HIVE then Inr False
          else if asset_num = HIVE_ASSET_NUM_HBD then Inr False
          else if asset_num = HIVE_ASSET_NUM_VESTS then Inr True
          else Inl (Assert_Exception ''Unknown asset symbol'')
      | Smt_Nai_Space \<Rightarrow> Inr (asset_num AND 32 \<noteq> 0))"

definition get_paired_symbol :: "asset_symbol_type \<Rightarrow> asset_symbol_type result" where
  "get_paired_symbol asset_num =
     (case symbol_space asset_num of
        Legacy_Space \<Rightarrow>
          if asset_num = HIVE_ASSET_NUM_HIVE then Inr HIVE_ASSET_NUM_VESTS
          else if asset_num = HIVE_ASSET_NUM_HBD then Inr asset_num
          else if asset_num = HIVE_ASSET_NUM_VESTS then Inr HIVE_ASSET_NUM_HIVE
          else Inl (Assert_Exception ''Unknown asset symbol'')
      | Smt_Nai_Space \<Rightarrow> Inr (asset_num XOR 32))"

definition symbol_validate :: "asset_symbol_type \<Rightarrow> unit result" where
  "symbol_validate asset_num =
     (if asset_num = HIVE_ASSET_NUM_HIVE \<or> asset_num = HIVE_ASSET_NUM_HBD
         \<or> asset_num = HIVE_ASSET_NUM_VESTS then Inr ()
      else
        let nai_data_digits = drop_bit 5 asset_num;
            nai_1bit = asset_num AND 16;
            nai_decimal_places = asset_num AND 15
        in fc_assert (SMT_MIN_NAI \<le> nai_data_digits \<and> nai_data_digits \<le> SMT_MAX_NAI
                      \<and> nai_1bit = 16 \<and> nai_decimal_places \<le> HIVE_ASSET_MAX_DECIMALS)
             ''Cannot determine space for asset'' (Inr ()))"

text \<open>The binary forms: 8 bytes with the legacy name, or the 4 bytes of the number.\<close>

fun symbol_chars :: "string \<Rightarrow> int" where
  "symbol_chars [] = 0"
| "symbol_chars (c # cs) = of_char c OR push_bit 8 (symbol_chars cs)"

definition VESTS_SYMBOL_U64 :: int where "VESTS_SYMBOL_U64 = symbol_chars ''VESTS''"
definition OBSOLETE_SYMBOL_U64 :: int where "OBSOLETE_SYMBOL_U64 = symbol_chars ''STEEM''"
definition HIVE_SYMBOL_U64 :: int where "HIVE_SYMBOL_U64 = symbol_chars ''HIVE''"
definition OBD_SYMBOL_U64 :: int where "OBD_SYMBOL_U64 = symbol_chars ''SBD''"
definition HBD_SYMBOL_U64 :: int where "HBD_SYMBOL_U64 = symbol_chars ''HBD''"

definition VESTS_SYMBOL_SER :: int where "VESTS_SYMBOL_SER = 6 OR push_bit 8 VESTS_SYMBOL_U64"
definition OBSOLETE_SYMBOL_SER :: int where "OBSOLETE_SYMBOL_SER = 3 OR push_bit 8 OBSOLETE_SYMBOL_U64"
definition OBD_SYMBOL_SER :: int where "OBD_SYMBOL_SER = 3 OR push_bit 8 OBD_SYMBOL_U64"

definition pack_symbol :: "bool \<Rightarrow> asset_symbol_type \<Rightarrow> byte list" where
  "pack_symbol legacy asset_num =
     (if symbol_space asset_num = Legacy_Space \<and> legacy then
        pack_le 8 (if asset_num = HIVE_ASSET_NUM_HIVE then OBSOLETE_SYMBOL_SER
                   else if asset_num = HIVE_ASSET_NUM_HBD then OBD_SYMBOL_SER
                   else VESTS_SYMBOL_SER)
      else pack_le 4 asset_num)"

definition unpack_symbol :: "nat \<Rightarrow> bool \<Rightarrow> byte list \<Rightarrow> (asset_symbol_type \<times> byte list) result" where
  "unpack_symbol depth limit_is_disabled s =
     rbind (stream_read 4 s) (\<lambda>(bs, s').
     let ser = le_value bs;
         legacy = (\<lambda>full asset_num.
           rbind (stream_read 4 s') (\<lambda>(hi, s'').
             fc_assert (ser OR push_bit 32 (le_value hi) = full) ''invalid asset bits'' (Inr (asset_num, s''))))
     in rbind
          (if ser = OBSOLETE_SYMBOL_SER AND 4294967295 then legacy OBSOLETE_SYMBOL_SER HIVE_ASSET_NUM_HIVE
           else if ser = OBD_SYMBOL_SER AND 4294967295 then legacy OBD_SYMBOL_SER HIVE_ASSET_NUM_HBD
           else if ser = VESTS_SYMBOL_SER AND 4294967295 then legacy VESTS_SYMBOL_SER HIVE_ASSET_NUM_VESTS
           else Inr (cast_u32 ser, s'))
          (\<lambda>(asset_num, s''). rbind (symbol_validate asset_num) (\<lambda>_. Inr (asset_num, s''))))"

lemma asset_num_values [simp]:
  "HIVE_ASSET_NUM_HBD = 3200000003"
  "HIVE_ASSET_NUM_HIVE = 3200000035"
  "HIVE_ASSET_NUM_VESTS = 3200000070"
  by (simp_all add: HIVE_ASSET_NUM_HBD_def HIVE_ASSET_NUM_HIVE_def HIVE_ASSET_NUM_VESTS_def
      HIVE_NAI_HBD_def HIVE_NAI_HIVE_def HIVE_NAI_VESTS_def SMT_MAX_NAI_def cast_u32_def push_bit_eq_mult)

lemmas nai_consts = SMT_MAX_NAI_def SMT_MIN_NAI_def HIVE_NAI_HBD_def HIVE_NAI_HIVE_def
  HIVE_NAI_VESTS_def HIVE_ASSET_MAX_DECIMALS_def

section \<open>Errors caught by the check digit\<close>

lemma nai_fold_zero:
  assumes "length ds = 9" "set ds \<subseteq> set decimal_digits"
    and "asset_num_from_nai (of_digits ds) decimal_places = Inr symbol"
  shows "foldl damm_step 0 ds = 0"
proof -
  obtain es c where ds: "ds = es @ [c]" "length es = 8"
    using assms(1) by (cases ds rule: rev_exhaust) auto
  have es: "set es \<subseteq> set decimal_digits" and c: "c \<in> set decimal_digits"
    using assms(2) ds by auto
  have q: "of_digits ds div 10 = of_digits es" "of_digits ds mod 10 = c"
    using c by (simp_all add: ds of_digits_snoc decimal_digits_iff)
  have "foldl damm_step 0 es \<in> set damm_states"
    by (rule damm.foldl_closed [OF _ es]) (simp add: damm_states_def)
  moreover have "c = foldl damm_step 0 es div 10"
    using assms(3) damm_checksum_foldl [OF ds(2) es]
    by (simp add: asset_num_from_nai_def Let_def q result_simps)
  ultimately show ?thesis using c by (simp add: ds damm_step_zero)
qed

lemma damm_core_symbols:
  "damm_checksum_8digit 1 = Inr 3" "damm_checksum_8digit 2 = Inr 1" "damm_checksum_8digit 3 = Inr 7"
  using damm_checksum_foldl [of "[0, 0, 0, 0, 0, 0, 0, 1]"]
    damm_checksum_foldl [of "[0, 0, 0, 0, 0, 0, 0, 2]"]
    damm_checksum_foldl [of "[0, 0, 0, 0, 0, 0, 0, 3]"]
  by (simp_all add: of_digits_def damm_eval)

text \<open>
  Property C18. Changing any one digit of a valid NAI gives an NAI the code refuses.
\<close>

theorem nai_single_digit_error:
  assumes "length (pre @ d # suf) = 9" "set (pre @ d # suf) \<subseteq> set decimal_digits"
    and "e \<in> set decimal_digits" "d \<noteq> e"
    and "asset_num_from_nai (of_digits (pre @ d # suf)) decimal_places = Inr symbol"
  shows "\<not> is_ok (asset_num_from_nai (of_digits (pre @ e # suf)) decimal_places')"
proof
  assume "is_ok (asset_num_from_nai (of_digits (pre @ e # suf)) decimal_places')"
  then have "foldl damm_step 0 (pre @ e # suf) = 0"
    using assms(1,2,3) by (auto simp: is_ok_def intro!: nai_fold_zero simp del: foldl_append foldl_Cons)
  moreover have "foldl damm_step 0 (pre @ d # suf) = 0"
    by (rule nai_fold_zero [OF assms(1,2,5)])
  ultimately have "d = e"
    using assms(2,3) damm.single_error [of 0 pre suf d e] by (simp add: damm_states_def)
  with assms(4) show False ..
qed

theorem nai_single_digit_error_witness:
  "\<not> is_ok (asset_num_from_nai (of_digits ([0, 0, 0, 0, 0, 0, 0] @ 4 # [3])) 3)"
  by (rule nai_single_digit_error [of "[0, 0, 0, 0, 0, 0, 0]" 1 "[3]" 4 3 HBD_SYMBOL])
    (simp_all add: decimal_digits_def of_digits_def asset_num_from_nai_def nai_consts damm_core_symbols)

text \<open>
  Property C19. Swapping two different adjacent digits of a valid NAI gives an NAI the code
  refuses.
\<close>

theorem nai_transposition_error:
  assumes "length (pre @ d # e # suf) = 9" "set (pre @ d # e # suf) \<subseteq> set decimal_digits"
    and "d \<noteq> e"
    and "asset_num_from_nai (of_digits (pre @ d # e # suf)) decimal_places = Inr symbol"
  shows "\<not> is_ok (asset_num_from_nai (of_digits (pre @ e # d # suf)) decimal_places')"
proof
  assume "is_ok (asset_num_from_nai (of_digits (pre @ e # d # suf)) decimal_places')"
  then have "foldl damm_step 0 (pre @ e # d # suf) = 0"
    using assms(1,2) by (auto simp: is_ok_def intro!: nai_fold_zero simp del: foldl_append foldl_Cons)
  moreover have "foldl damm_step 0 (pre @ d # e # suf) = 0"
    by (rule nai_fold_zero [OF assms(1,2,4)])
  ultimately have "d = e"
    using assms(2) damm.adjacent_swap [of 0 pre suf d e] by (simp add: damm_states_def)
  with assms(3) show False ..
qed

theorem nai_transposition_error_witness:
  "\<not> is_ok (asset_num_from_nai (of_digits ([0, 0, 0, 0, 0, 0, 0] @ 3 # 1 # [])) 3)"
  by (rule nai_transposition_error [of "[0, 0, 0, 0, 0, 0, 0]" 1 3 "[]" 3 HBD_SYMBOL])
    (simp_all add: decimal_digits_def of_digits_def asset_num_from_nai_def nai_consts damm_core_symbols)

section \<open>NAI and symbol\<close>

lemma nai_symbol_bits:
  assumes "0 \<le> n" "n \<le> SMT_MAX_NAI" "0 \<le> p" "p \<le> 15"
  shows "cast_u32 (push_bit 5 n) OR 16 OR p = 32 * n + 16 + p"
proof -
  have "16 OR p = 16 + p"
    using or_disjoint_add [of p 4 16] assms by simp
  moreover have "cast_u32 (push_bit 5 n) = push_bit 5 n"
    using assms by (simp add: push_bit_eq_mult SMT_MAX_NAI_def cast_simps)
  ultimately show ?thesis
    using or_push_bit_add [of "16 + p" 5 n] assms by simp
qed

lemma and_15: "(s::int) AND 15 = s mod 16"
  using and_exp_minus_one [of s 4] by simp

lemma and_16: "(s::int) AND 16 = (if odd (s div 16) then 16 else 0)"
  using and_exp [of s 4] by (simp add: bit_iff_odd)

lemma smt_num_split:
  fixes s :: int
  assumes "odd (s div 16)"
  shows "32 * (s div 32) + 16 + s mod 16 = s"
proof -
  have "s div 32 = s div 16 div 2" using zdiv_zmult2_eq [of 2 s 16] by simp
  moreover have "2 * (s div 16 div 2) + 1 = s div 16" using assms by simp
  moreover have "16 * (s div 16) + s mod 16 = s" by simp
  ultimately show ?thesis by linarith
qed

text \<open>
  A validated symbol outside the legacy space is \<open>32 * n + 16 + p\<close> with its NAI data \<open>n\<close> and
  its decimal places \<open>p\<close>.
\<close>

lemma symbol_validate_cases:
  assumes "symbol_validate s = Inr ()"
  obtains "s = HIVE_ASSET_NUM_HIVE" | "s = HIVE_ASSET_NUM_HBD" | "s = HIVE_ASSET_NUM_VESTS"
  | n p where "symbol_space s = Smt_Nai_Space" "s = 32 * n + 16 + p" "1 \<le> n" "n \<le> 99999999" "0 \<le> p" "p \<le> 12"
proof (cases "symbol_space s")
  case Smt_Nai_Space
  then have "1 \<le> s div 32" "s div 32 \<le> 99999999" "odd (s div 16)" "s mod 16 \<le> 12"
    using assms
    by (auto simp: symbol_space_def symbol_validate_def Let_def result_simps nai_consts
        and_15 and_16 drop_bit_eq_div split: if_splits)
  moreover from this have "s = 32 * (s div 32) + 16 + s mod 16" by (simp add: smt_num_split)
  ultimately show ?thesis using Smt_Nai_Space that(4) [of "s div 32" "s mod 16"] by simp
qed (use that in \<open>auto simp: symbol_space_def split: if_splits\<close>)

lemma symbol_decimals_smt:
  assumes "0 \<le> p" "p \<le> 15"
  shows "symbol_decimals (32 * n + 16 + p) = p"
proof -
  have "(32 * n + 16 + p) mod 16 = (p + 16 * (2 * n + 1)) mod 16" by (simp add: algebra_simps)
  also have "\<dots> = p mod 16" by (rule mod_mult_self2)
  finally show ?thesis using assms by (simp add: symbol_decimals_def and_15 cast_simps)
qed



text \<open>
  Property C21. An NAI that is accepted gives a symbol that passes validation, has the given
  decimal places and prints as the same NAI.
\<close>

theorem from_nai_to_nai:
  assumes "asset_num_from_nai nai decimal_places = Inr s" "0 \<le> decimal_places"
  shows "symbol_validate s = Inr () \<and> symbol_decimals s = decimal_places \<and> to_nai s = Inr nai"
proof -
  define n where "n = nai div 10"
  define c where "c = nai mod 10"
  have nai: "nai = n * 10 + c" "0 \<le> c" "c \<le> 9" by (simp_all add: n_def c_def)
  have n: "1 \<le> n" "n \<le> 99999999" and dc: "damm_checksum_8digit n = Inr c"
    using assms(1) by (auto simp: asset_num_from_nai_def Let_def nai_consts result_simps n_def c_def)
  note unf = asset_num_from_nai_def Let_def nai_consts result_simps n_def [symmetric] c_def [symmetric]
  show ?thesis
  proof (cases "n \<le> 3")
    case True
    with n have "n = 1 \<or> n = 2 \<or> n = 3" by auto
    with assms(1) dc nai show ?thesis
      by (auto simp: unf to_nai_def symbol_validate_def symbol_decimals_def and_15
          cast_u8_def cast_u32_def damm_core_symbols)
  next
    case False
    with assms n have p: "decimal_places \<le> 12" and s: "s = 32 * n + 16 + decimal_places"
      using nai_symbol_bits [of n decimal_places] by (auto simp: unf split: if_splits)
    have "s div 16 = 2 * n + 1" using s p assms(2) by simp
    moreover have "s mod 16 = decimal_places"
      using symbol_decimals_smt [of decimal_places n] s p assms(2)
      by (simp add: symbol_decimals_def and_15 cast_u8_def)
    moreover have "s div 32 = n" using s p assms(2) by simp
    moreover have "symbol_space s = Smt_Nai_Space" using s p n assms(2) by (simp add: symbol_space_def)
    ultimately show ?thesis
      using s p n dc nai assms(2) symbol_decimals_smt [of decimal_places n]
      by (auto simp: to_nai_def symbol_validate_def symbol_space_def and_15 and_16 drop_bit_eq_div
          nai_consts cast_simps split: if_splits)
  qed
qed

theorem from_nai_to_nai_witness:
  "symbol_validate HBD_SYMBOL = Inr () \<and> symbol_decimals HBD_SYMBOL = 3 \<and> to_nai HBD_SYMBOL = Inr 13"
  by (rule from_nai_to_nai)
    (simp_all add: asset_num_from_nai_def nai_consts damm_core_symbols)

text \<open>The exception in the round trip: the number 51 is valid, is not HBD, and prints as HBD's NAI.\<close>

lemma to_nai_alias:
  "symbol_validate 51 = Inr () \<and> 51 \<noteq> HBD_SYMBOL \<and> to_nai 51 = to_nai HBD_SYMBOL
   \<and> rbind (to_nai 51) (\<lambda>nai. asset_num_from_nai nai (symbol_decimals 51)) = Inr HBD_SYMBOL"
  by (simp add: symbol_validate_def to_nai_def symbol_space_def symbol_decimals_def nai_consts
      drop_bit_eq_div and_15 and_16 damm_core_symbols asset_num_from_nai_def cast_u8_def cast_u32_def)

section \<open>The binary form\<close>

lemma symbol_ser_values:
  "VESTS_SYMBOL_SER = 91621639411206" "OBSOLETE_SYMBOL_SER = 84959911236355" "OBD_SYMBOL_SER = 1145197315"
  by (simp_all add: VESTS_SYMBOL_SER_def OBSOLETE_SYMBOL_SER_def OBD_SYMBOL_SER_def
      VESTS_SYMBOL_U64_def OBSOLETE_SYMBOL_U64_def OBD_SYMBOL_U64_def push_bit_eq_mult)

lemma symbol_ser_low:
  "VESTS_SYMBOL_SER AND 4294967295 = 1397052934" "OBSOLETE_SYMBOL_SER AND 4294967295 = 1163154179"
  "OBD_SYMBOL_SER AND 4294967295 = 1145197315"
  by (simp_all add: symbol_ser_values)

lemma pack_le_append: "pack_le (m + n) v = pack_le m v @ pack_le n (v div 256 ^ m)"
  by (induction m arbitrary: v) (simp_all add: zdiv_zmult2_eq)

lemma pack_le_8: "pack_le 8 v = pack_le 4 v @ pack_le 4 (v div 4294967296)"
  using pack_le_append [of 4 4 v] by simp

lemma unpack_symbol_pack:
  assumes "symbol_validate x = Inr ()"
  shows "unpack_symbol depth lim (pack_symbol legacy x @ s) = Inr (x, s)"
proof (cases "symbol_space x = Legacy_Space \<and> legacy")
  case True
  then have "x = HIVE_ASSET_NUM_HIVE \<or> x = HIVE_ASSET_NUM_HBD \<or> x = HIVE_ASSET_NUM_VESTS"
    by (auto simp: symbol_space_def split: if_splits)
  with True assms show ?thesis
    by (auto simp: unpack_symbol_def pack_symbol_def pack_le_8 le_value_pack_le symbol_ser_low
        symbol_ser_values push_bit_eq_mult simp del: asset_num_values(1) pack_le.simps)
next
  case False
  have "0 \<le> x \<and> x \<le> uint32_max
      \<and> x \<noteq> VESTS_SYMBOL_SER AND 4294967295 \<and> x \<noteq> OBSOLETE_SYMBOL_SER AND 4294967295
      \<and> x \<noteq> OBD_SYMBOL_SER AND 4294967295"
    using assms
  proof (cases rule: symbol_validate_cases)
    case (4 n p)
    show ?thesis unfolding symbol_ser_low using 4 by simp presburger
  qed (simp_all add: symbol_ser_low)
  then show ?thesis
    using False assms
    by (auto simp: unpack_symbol_def pack_symbol_def le_value_pack_le cast_simps simp del: pack_le.simps)
qed

interpretation symbol_legacy: codec "pack_symbol True" unpack_symbol "\<lambda>x. symbol_validate x = Inr ()" 0
  by unfold_locales (rule unpack_symbol_pack)

interpretation symbol_nai: codec "pack_symbol False" unpack_symbol "\<lambda>x. symbol_validate x = Inr ()" 0
  by unfold_locales (rule unpack_symbol_pack)

section \<open>Liquid and vesting variants\<close>

lemma xor_32_even:
  assumes "even ((s::int) div 32)"
  shows "s XOR 32 = s + 32"
proof -
  have "s AND 2 ^ 5 = 0" using and_exp [of s 5] assms by (simp add: bit_iff_odd)
  then have "s XOR 2 ^ 5 = s OR 2 ^ 5" and "s OR 2 ^ 5 = s + 2 ^ 5"
    using plus_and_or [of s "2 ^ 5"] disjunctive_xor_eq_or [of s "2 ^ 5"] by simp_all
  then show ?thesis by simp
qed

lemma xor_32: "(s::int) XOR 32 = (if odd (s div 32) then s - 32 else s + 32)"
proof (cases "odd (s div 32)")
  case True
  have "(s - 32) div 32 = s div 32 - 1" by simp
  with True have eq: "(s - 32) XOR 32 = s" using xor_32_even [of "s - 32"] by simp
  have "((s - 32) XOR 32) XOR 32 = s - 32" by (simp add: xor.assoc)
  with True show ?thesis unfolding eq by simp
qed (simp add: xor_32_even)

text \<open>
  Property C22. Pairing is an involution on validated symbols that swaps the liquid and the
  vesting variant and keeps the decimal places of an SMT; HBD, which has no vesting variant,
  is paired with itself.
\<close>

theorem get_paired_symbol_involution:
  assumes "symbol_validate s = Inr ()"
  shows "\<exists>t v. get_paired_symbol s = Inr t \<and> get_paired_symbol t = Inr s
    \<and> is_vesting s = Inr v \<and> (if s = HBD_SYMBOL then t = s else is_vesting t = Inr (\<not> v))
    \<and> (symbol_space s = Smt_Nai_Space \<longrightarrow> symbol_decimals t = symbol_decimals s)"
  using assms
proof (cases rule: symbol_validate_cases)
  case (4 n p)
  define m where "m = (if odd n then n - 1 else n + 1)"
  have n: "s div 32 = n" using 4 by simp
  have t: "s XOR 32 = 32 * m + 16 + p" using 4 n by (simp add: xor_32 m_def)
  have m: "(32 * m + 16 + p) div 32 = m" "odd m \<longleftrightarrow> even n" using 4 by (auto simp: m_def)
  have inv: "(32 * m + 16 + p) XOR 32 = s" using 4 m by (simp add: xor_32 m_def)
  have sp: "symbol_space (32 * m + 16 + p) = Smt_Nai_Space"
    using 4 by (simp add: symbol_space_def) presburger
  have v: "x AND 32 \<noteq> 0 \<longleftrightarrow> odd (x div 32)" for x :: int
    using and_exp [of x 5] by (simp add: bit_iff_odd)
  show ?thesis
    using 4 sp t inv n m symbol_decimals_smt [of p n] symbol_decimals_smt [of p m]
    by (auto simp: get_paired_symbol_def is_vesting_def v symbol_space_def split: if_splits)
qed (auto simp: get_paired_symbol_def is_vesting_def symbol_space_def)

theorem get_paired_symbol_involution_witness:
  "\<exists>t. get_paired_symbol VESTS_SYMBOL = Inr t \<and> get_paired_symbol t = Inr VESTS_SYMBOL"
  using get_paired_symbol_involution [of VESTS_SYMBOL] by (auto simp: symbol_validate_def)

end
