(* ===== verification/Asset.thy ===== *)
theory Asset
  imports Complex_Main Asset_Symbol "HOL-Library.Product_Lexorder"
begin

text \<open>
  \<open>protocol/asset.hpp\<close> and \<open>asset.cpp\<close>: assets with checked arithmetic, prices with their
  comparison, the conversion of an asset through a price with and without a fee, and the
  legacy decimal text form. The lemmas show that the comparison of prices is the comparison
  of the rational numbers, what the conversions compute and when they wrap, that converting
  there and back never creates value, and that the text form can be read back.
\<close>

section \<open>Assets\<close>

record asset =
  asset_amount :: int
  asset_symbol :: asset_symbol_type

abbreviation mk_asset :: "int \<Rightarrow> asset_symbol_type \<Rightarrow> asset" where
  "mk_asset a s \<equiv> \<lparr>asset_amount = a, asset_symbol = s\<rparr>"

definition same_symbol :: "asset \<Rightarrow> asset \<Rightarrow> 'a result \<Rightarrow> 'a result" where
  "same_symbol a b k = fc_assert (asset_symbol a = asset_symbol b) ''a.symbol == b.symbol'' k"

definition asset_add :: "asset \<Rightarrow> asset \<Rightarrow> asset result" where
  "asset_add a b = same_symbol a b
     (rbind (sadd (asset_amount a) (asset_amount b)) (\<lambda>v. Inr (mk_asset v (asset_symbol a))))"

definition asset_sub :: "asset \<Rightarrow> asset \<Rightarrow> asset result" where
  "asset_sub a b = same_symbol a b
     (rbind (ssub (asset_amount a) (asset_amount b)) (\<lambda>v. Inr (mk_asset v (asset_symbol a))))"

definition asset_neg :: "asset \<Rightarrow> asset result" where
  "asset_neg a = rbind (sneg (asset_amount a)) (\<lambda>v. Inr (mk_asset v (asset_symbol a)))"

definition asset_less :: "asset \<Rightarrow> asset \<Rightarrow> bool result" where
  "asset_less a b = same_symbol a b (Inr (asset_amount a < asset_amount b))"

definition asset_leq :: "asset \<Rightarrow> asset \<Rightarrow> bool result" where
  "asset_leq a b = same_symbol a b (Inr (asset_amount a \<le> asset_amount b))"

section \<open>Prices\<close>

record price =
  base :: asset
  quote :: asset

abbreviation mk_price :: "asset \<Rightarrow> asset \<Rightarrow> price" where
  "mk_price b q \<equiv> \<lparr>base = b, quote = q\<rparr>"

definition HIVE_MAX_SATOSHIS :: int where "HIVE_MAX_SATOSHIS = 4611686018427387903"
definition HIVE_100_PERCENT :: int where "HIVE_100_PERCENT = 10000"

definition price_validate :: "price \<Rightarrow> unit result" where
  "price_validate p =
     fc_assert (0 < asset_amount (base p)) ''base.amount > share_type(0)''
     (fc_assert (0 < asset_amount (quote p)) ''quote.amount > share_type(0)''
     (fc_assert (asset_symbol (base p) \<noteq> asset_symbol (quote p)) ''base.symbol != quote.symbol''
     (Inr ())))"

text \<open>The constructor with two arguments validates; the default constructor does not.\<close>

definition price_make :: "asset \<Rightarrow> asset \<Rightarrow> price result" where
  "price_make b q = rbind (price_validate (mk_price b q)) (\<lambda>_. Inr (mk_price b q))"

definition price_default :: price where
  "price_default = mk_price (mk_asset 0 HIVE_SYMBOL) (mk_asset 0 HIVE_SYMBOL)"

definition price_invert :: "price \<Rightarrow> price result" where
  "price_invert p = price_make (quote p) (base p)"

definition price_max :: "asset_symbol_type \<Rightarrow> asset_symbol_type \<Rightarrow> price result" where
  "price_max b q = price_make (mk_asset HIVE_MAX_SATOSHIS b) (mk_asset 1 q)"

definition price_min :: "asset_symbol_type \<Rightarrow> asset_symbol_type \<Rightarrow> price result" where
  "price_min b q = price_make (mk_asset 1 b) (mk_asset HIVE_MAX_SATOSHIS q)"

text \<open>
  \<open>DEFINE_PRICE_COMPARISON_OPERATOR\<close>: the pair of symbols decides unless it is equal;
  then the cross products are compared as 128-bit integers.
\<close>

definition price_BQ :: "price \<Rightarrow> int \<times> int" where
  "price_BQ p = (asset_symbol (base p), asset_symbol (quote p))"

definition price_mult :: "price \<Rightarrow> price \<Rightarrow> int" where
  "price_mult a b = cast_u128 (cast_u128 (asset_amount (quote b)) * cast_u128 (asset_amount (base a)))"

definition price_eq :: "price \<Rightarrow> price \<Rightarrow> bool" where
  "price_eq a b = (if price_BQ a \<noteq> price_BQ b then price_BQ a = price_BQ b
     else price_mult a b = price_mult b a)"

definition price_less :: "price \<Rightarrow> price \<Rightarrow> bool" where
  "price_less a b = (if price_BQ a \<noteq> price_BQ b then price_BQ a < price_BQ b
     else price_mult a b < price_mult b a)"

definition price_leq :: "price \<Rightarrow> price \<Rightarrow> bool" where
  "price_leq a b = (if price_BQ a \<noteq> price_BQ b then price_BQ a \<le> price_BQ b
     else price_mult a b \<le> price_mult b a)"

definition price_is_null :: "price \<Rightarrow> bool" where
  "price_is_null p = price_eq p price_default"

text \<open>
  \<open>asset * price\<close>. The magnitude is taken as an unsigned 128-bit value, and the 64-bit
  unsigned result is converted to the signed \<open>share_type\<close> without a check.
\<close>

definition amount_magnitude :: "int \<Rightarrow> int" where
  "amount_magnitude v = cast_u128 (if v < 0 then cast_i64 (- v) else v)"

definition share_from_magnitude :: "bool \<Rightarrow> int \<Rightarrow> int" where
  "share_from_magnitude is_negative r = cast_i64 (if is_negative then cast_u64 (- r) else r)"

definition u128_div :: "int \<Rightarrow> int \<Rightarrow> int result" where
  "u128_div a b = (if b = 0 then Inl (Undefined_Behaviour ''division by zero'') else Inr (a div b))"

definition asset_mul_price :: "asset \<Rightarrow> price \<Rightarrow> asset result" where
  "asset_mul_price a b =
     (let is_negative = asset_amount a < 0;
          result = amount_magnitude (asset_amount a)
      in if asset_symbol a = asset_symbol (base b) then
           rbind (u128_div (cast_u128 (result * cast_u128 (asset_amount (quote b))))
                    (cast_u128 (asset_amount (base b)))) (\<lambda>result.
           rbind (uint128_to_uint64 result) (\<lambda>r.
             Inr (mk_asset (share_from_magnitude is_negative r) (asset_symbol (quote b)))))
         else
           fc_assert (asset_symbol a = asset_symbol (quote b)) ''invalid asset * price''
           (rbind (u128_div (cast_u128 (result * cast_u128 (asset_amount (base b))))
                     (cast_u128 (asset_amount (quote b)))) (\<lambda>result.
            rbind (uint128_to_uint64 result) (\<lambda>r.
              Inr (mk_asset (share_from_magnitude is_negative r) (asset_symbol (base b)))))))"

definition multiply_with_fee :: "asset \<Rightarrow> price \<Rightarrow> int \<Rightarrow> asset_symbol_type \<Rightarrow> asset result" where
  "multiply_with_fee a p fee apply_fee_to =
     (let is_negative = asset_amount a < 0;
          result = amount_magnitude (asset_amount a)
      in rbind
        (if apply_fee_to = asset_symbol (base p) then Inr (cast_u16 (HIVE_100_PERCENT + fee), HIVE_100_PERCENT)
         else fc_assert (apply_fee_to = asset_symbol (quote p)) ''Invalid fee symbol for price''
                (Inr (HIVE_100_PERCENT, cast_u16 (HIVE_100_PERCENT + fee))))
        (\<lambda>(scale_b, scale_q).
         if asset_symbol a = asset_symbol (base p) then
           rbind (u128_div
                    (cast_u128 (cast_u128 (result * cast_u128 (asset_amount (quote p))) * scale_q))
                    (cast_u128 (cast_u128 (asset_amount (base p)) * scale_b))) (\<lambda>result.
           rbind (uint128_to_uint64 result) (\<lambda>r.
             Inr (mk_asset (share_from_magnitude is_negative r) (asset_symbol (quote p)))))
         else
           fc_assert (asset_symbol a = asset_symbol (quote p)) ''invalid asset * price''
           (rbind (u128_div
                     (cast_u128 (cast_u128 (result * cast_u128 (asset_amount (base p))) * scale_b))
                     (cast_u128 (cast_u128 (asset_amount (quote p)) * scale_q))) (\<lambda>result.
            rbind (uint128_to_uint64 result) (\<lambda>r.
              Inr (mk_asset (share_from_magnitude is_negative r) (asset_symbol (base p))))))))"

section \<open>Comparison of prices\<close>

definition price_ok :: "price \<Rightarrow> bool" where
  "price_ok p \<longleftrightarrow> price_validate p = Inr () \<and> asset_amount (base p) \<le> int64_max
     \<and> asset_amount (quote p) \<le> int64_max"

lemma price_okD:
  assumes "price_ok p"
  shows "0 < asset_amount (base p)" "0 < asset_amount (quote p)"
    "asset_amount (base p) \<le> int64_max" "asset_amount (quote p) \<le> int64_max"
    "asset_symbol (base p) \<noteq> asset_symbol (quote p)"
  using assms by (auto simp: price_ok_def price_validate_def result_simps)

lemma mult_le_uint128_shares:
  fixes a b :: int
  assumes "0 \<le> a" "a \<le> int64_max" "0 \<le> b" "b \<le> int64_max"
  shows "a * b \<le> uint128_max"
  by (rule mult_le_uint128) (use assms in auto)

lemma price_mult_exact:
  assumes "price_ok a" "price_ok b"
  shows "price_mult a b = asset_amount (quote b) * asset_amount (base a)"
  using price_okD [OF assms(1)] price_okD [OF assms(2)]
  by (simp add: price_mult_def cast_simps mult_le_uint128_shares)

definition price_ratio :: "price \<Rightarrow> rat" where
  "price_ratio p = of_int (asset_amount (base p)) / of_int (asset_amount (quote p))"

lemma cross_mult_rat:
  fixes a b c d :: int
  assumes "0 < b" "0 < d"
  shows "(of_int a / of_int b :: rat) < of_int c / of_int d \<longleftrightarrow> d * a < b * c"
    and "(of_int a / of_int b :: rat) = of_int c / of_int d \<longleftrightarrow> d * a = b * c"
proof -
  have "(of_int a / of_int b :: rat) < of_int c / of_int d
      \<longleftrightarrow> (of_int (d * a) :: rat) < of_int (b * c)"
    using assms by (simp add: divide_simps mult.commute)
  then show "(of_int a / of_int b :: rat) < of_int c / of_int d \<longleftrightarrow> d * a < b * c"
    by (simp only: of_int_less_iff)
  have "(of_int a / of_int b :: rat) = of_int c / of_int d
      \<longleftrightarrow> (of_int (d * a) :: rat) = of_int (b * c)"
    using assms by (simp add: divide_simps mult.commute)
  then show "(of_int a / of_int b :: rat) = of_int c / of_int d \<longleftrightarrow> d * a = b * c"
    by (simp only: of_int_eq_iff)
qed

text \<open>
  Property C11. Between valid prices the operators compare first the pair of symbols and
  then the exact rational values of the prices; no product overflows.
\<close>

theorem price_compare_rational:
  assumes "price_ok a" "price_ok b"
  shows "(price_less a b \<longleftrightarrow> (price_BQ a, price_ratio a) < (price_BQ b, price_ratio b))
    \<and> (price_leq a b \<longleftrightarrow> (price_BQ a, price_ratio a) \<le> (price_BQ b, price_ratio b))
    \<and> (price_eq a b \<longleftrightarrow> (price_BQ a, price_ratio a) = (price_BQ b, price_ratio b))"
proof -
  note ok = price_okD [OF assms(1)] price_okD [OF assms(2)]
  have lt: "price_ratio a < price_ratio b \<longleftrightarrow> price_mult a b < price_mult b a"
    and eq: "price_ratio a = price_ratio b \<longleftrightarrow> price_mult a b = price_mult b a"
    unfolding price_mult_exact [OF assms] price_mult_exact [OF assms(2,1)] price_ratio_def
    by (rule cross_mult_rat; use ok in simp)+
  have le: "price_ratio a \<le> price_ratio b \<longleftrightarrow> price_mult a b \<le> price_mult b a"
    unfolding order_le_less using lt eq by simp
  show ?thesis
    unfolding price_less_def price_leq_def price_eq_def less_prod_simp less_eq_prod_simp prod.inject
    using lt eq le by (auto simp: order_le_less)
qed

definition sample_price :: price where
  "sample_price = mk_price (mk_asset 3 HBD_SYMBOL) (mk_asset 10 HIVE_SYMBOL)"

lemma sample_price_ok: "price_ok sample_price"
  by (simp add: sample_price_def price_ok_def price_validate_def)

theorem price_compare_rational_witness:
  "price_less (mk_price (mk_asset 1 HBD_SYMBOL) (mk_asset 4 HIVE_SYMBOL)) sample_price"
  using price_compare_rational [OF _ sample_price_ok,
      of "mk_price (mk_asset 1 HBD_SYMBOL) (mk_asset 4 HIVE_SYMBOL)"]
  by (simp add: sample_price_def price_ok_def price_validate_def price_BQ_def price_ratio_def)

text \<open>A price is null exactly when both of its symbols are HIVE, so a valid price never is.\<close>

lemma price_is_null_iff:
  "price_is_null p \<longleftrightarrow> asset_symbol (base p) = HIVE_SYMBOL \<and> asset_symbol (quote p) = HIVE_SYMBOL"
  by (auto simp: price_is_null_def price_eq_def price_BQ_def price_mult_def price_default_def cast_u128_def)

lemma price_ok_not_null: "price_ok p \<Longrightarrow> \<not> price_is_null p"
  by (drule price_okD(5)) (auto simp: price_is_null_iff)

section \<open>Converting through a price\<close>

lemma amount_magnitude_nonneg: "0 \<le> v \<Longrightarrow> v \<le> int64_max \<Longrightarrow> amount_magnitude v = v"
  by (simp add: amount_magnitude_def cast_simps)

text \<open>
  What the conversion of a non-negative amount through a valid price returns: the floor of
  the exact quotient if it fits the amount type, a negative amount if it fits only the
  unsigned 64-bit type, and an exception otherwise.
\<close>

definition mul_div_result :: "int \<Rightarrow> int \<Rightarrow> int \<Rightarrow> asset_symbol_type \<Rightarrow> asset result" where
  "mul_div_result v num den s =
     (let r = v * num div den in
      if r \<le> int64_max then Inr (mk_asset r s)
      else if r \<le> uint64_max then Inr (mk_asset (r - 18446744073709551616) s)
      else Inl (Assert_Exception ''u <= std::numeric_limits<uint64_t>::max()''))"

lemma uint64_to_share:
  "0 \<le> r \<Longrightarrow> r \<le> uint64_max \<Longrightarrow>
   share_from_magnitude False r = (if r \<le> int64_max then r else r - 18446744073709551616)"
proof (cases "r \<le> int64_max")
  case False
  assume r: "0 \<le> r" "r \<le> uint64_max"
  have "(r + 9223372036854775808) mod 18446744073709551616 = r - 9223372036854775808"
    by (rule int_mod_pos_eq [of _ _ 1]) (use r False in auto)
  then show ?thesis using False by (simp add: share_from_magnitude_def cast_i64_def)
qed (simp add: share_from_magnitude_def cast_simps)

lemma mul_div_result_code:
  assumes "0 \<le> r"
  shows "rbind (uint128_to_uint64 r) (\<lambda>r. Inr (mk_asset (share_from_magnitude False r) s)) =
     (if r \<le> int64_max then Inr (mk_asset r s)
      else if r \<le> uint64_max then Inr (mk_asset (r - 18446744073709551616) s)
      else Inl (Assert_Exception ''u <= std::numeric_limits<uint64_t>::max()''))"
  using assms by (simp add: uint128_to_uint64_def fc_assert_def uint64_to_share)

lemma asset_mul_price_nonneg:
  assumes "price_ok p" "0 \<le> asset_amount a" "asset_amount a \<le> int64_max"
  shows "asset_mul_price a p =
    (if asset_symbol a = asset_symbol (base p) then
       mul_div_result (asset_amount a) (asset_amount (quote p)) (asset_amount (base p)) (asset_symbol (quote p))
     else if asset_symbol a = asset_symbol (quote p) then
       mul_div_result (asset_amount a) (asset_amount (base p)) (asset_amount (quote p)) (asset_symbol (base p))
     else Inl (Assert_Exception ''invalid asset * price''))"
proof -
  note ok = price_okD [OF assms(1)]
  have "0 \<le> asset_amount a * asset_amount (quote p) div asset_amount (base p)"
    "0 \<le> asset_amount a * asset_amount (base p) div asset_amount (quote p)"
    using ok assms by (simp_all add: pos_imp_zdiv_nonneg_iff)
  then show ?thesis
    using ok assms
    by (simp add: asset_mul_price_def amount_magnitude_nonneg cast_simps mult_le_uint128_shares
        u128_div_def mul_div_result_code mul_div_result_def Let_def)
qed



text \<open>The unchecked conversion to the signed amount: a positive asset becomes a negative one.\<close>

lemma asset_mul_price_wraps:
  "asset_mul_price (mk_asset 1000000000000 HBD_SYMBOL)
     (mk_price (mk_asset 1 HBD_SYMBOL) (mk_asset 10000000 HIVE_SYMBOL))
   = Inr (mk_asset (-8446744073709551616) HIVE_SYMBOL)"
  using asset_mul_price_nonneg [of "mk_price (mk_asset 1 HBD_SYMBOL) (mk_asset 10000000 HIVE_SYMBOL)"
      "mk_asset 1000000000000 HBD_SYMBOL"]
  by (simp add: mul_div_result_def price_ok_def price_validate_def)

lemma mul_div_back:
  fixes a b q :: int
  assumes "0 \<le> a" "0 < b" "0 < q"
  shows "0 \<le> a * q div b" "a * q div b * b div q \<le> a"
proof -
  show "0 \<le> a * q div b" using assms by (simp add: pos_imp_zdiv_nonneg_iff)
  have "a * q div b * b \<le> a * q"
    using assms by (metis div_mult_mod_eq le_add_same_cancel1 pos_mod_sign)
  then have "a * q div b * b div q \<le> a * q div q" by (rule zdiv_mono1) (use assms in simp)
  then show "a * q div b * b div q \<le> a" using assms by simp
qed

text \<open>
  Property C24. Converting an asset through a valid price and the result back through the
  same price never yields more than the original amount, when the intermediate amount fits
  the amount type.
\<close>

theorem asset_mul_price_no_gain:
  assumes p: "price_ok p" and a: "0 \<le> asset_amount a" "asset_amount a \<le> int64_max"
    and b: "asset_mul_price a p = Inr b" "0 \<le> asset_amount b"
  shows "\<exists>c. asset_mul_price b p = Inr c \<and> asset_symbol c = asset_symbol a
    \<and> 0 \<le> asset_amount c \<and> asset_amount c \<le> asset_amount a"
proof -
  note ok = price_okD [OF p]
  define num where "num = (if asset_symbol a = asset_symbol (base p) then asset_amount (quote p) else asset_amount (base p))"
  define den where "den = (if asset_symbol a = asset_symbol (base p) then asset_amount (base p) else asset_amount (quote p))"
  have nd: "0 < num" "0 < den" using ok by (simp_all add: num_def den_def)
  note bk = mul_div_back [OF a(1) nd(2) nd(1)]
  have sym: "asset_symbol a = asset_symbol (base p) \<or> asset_symbol a = asset_symbol (quote p)"
    using b(1) by (auto simp: asset_mul_price_nonneg [OF p a] split: if_splits)
  have bv: "asset_amount b = asset_amount a * num div den" "asset_amount b \<le> int64_max"
    "asset_symbol b = (if asset_symbol a = asset_symbol (base p) then asset_symbol (quote p) else asset_symbol (base p))"
    using b bk(1) sym
    by (auto simp: asset_mul_price_nonneg [OF p a] mul_div_result_def Let_def num_def den_def split: if_splits)
  then have "asset_mul_price b p = mul_div_result (asset_amount b) den num (asset_symbol a)"
    using ok sym by (auto simp: asset_mul_price_nonneg [OF p b(2) bv(2)] num_def den_def)
  moreover have "asset_amount b * den div num \<le> asset_amount a" using bk(2) bv(1) by simp
  moreover have "0 \<le> asset_amount b * den div num"
    using b(2) nd by (simp add: pos_imp_zdiv_nonneg_iff)
  ultimately show ?thesis using a(2) by (simp add: mul_div_result_def Let_def)
qed

theorem asset_mul_price_no_gain_witness:
  "\<exists>c. asset_mul_price (mk_asset 333 HIVE_SYMBOL) sample_price = Inr c \<and> asset_symbol c = HBD_SYMBOL
    \<and> 0 \<le> asset_amount c \<and> asset_amount c \<le> 100"
  using asset_mul_price_no_gain [OF sample_price_ok, of "mk_asset 100 HBD_SYMBOL" "mk_asset 333 HIVE_SYMBOL"]
  by (simp add: sample_price_def asset_mul_price_def amount_magnitude_def u128_div_def
      uint128_to_uint64_def share_from_magnitude_def cast_simps)

section \<open>Conversion with a fee\<close>

definition HIVE_MAX_SHARE_SUPPLY :: int where "HIVE_MAX_SHARE_SUPPLY = 1000000000000000"

definition fee_scale :: "int \<Rightarrow> asset_symbol_type \<Rightarrow> asset_symbol_type \<Rightarrow> int" where
  "fee_scale fee apply_fee_to s = (if apply_fee_to = s then HIVE_100_PERCENT + fee else HIVE_100_PERCENT)"

lemma fee_product_bounds:
  fixes v n k :: int
  assumes "0 \<le> v" "v \<le> HIVE_MAX_SHARE_SUPPLY" "0 < n" "n \<le> HIVE_MAX_SHARE_SUPPLY" "0 < k" "k \<le> 65535"
  shows "0 \<le> v * n" "v * n \<le> uint128_max" "0 \<le> v * n * k" "v * n * k \<le> uint128_max"
    "0 < n * k" "n * k \<le> uint128_max"
proof -
  have vn: "v * n \<le> 1000000000000000 * 1000000000000000"
    by (rule mult_mono) (use assms in \<open>auto simp: HIVE_MAX_SHARE_SUPPLY_def\<close>)
  have "v * n * k \<le> (1000000000000000 * 1000000000000000) * 65535"
    by (rule mult_mono [OF vn]) (use assms in auto)
  moreover have "n * k \<le> 1000000000000000 * 65535"
    by (rule mult_mono) (use assms in \<open>auto simp: HIVE_MAX_SHARE_SUPPLY_def\<close>)
  ultimately show "0 \<le> v * n" "v * n \<le> uint128_max" "0 \<le> v * n * k" "v * n * k \<le> uint128_max"
    "0 < n * k" "n * k \<le> uint128_max"
    using vn assms by auto
qed

lemma multiply_with_fee_nonneg:
  assumes p: "price_ok p" "asset_amount (base p) \<le> HIVE_MAX_SHARE_SUPPLY"
      "asset_amount (quote p) \<le> HIVE_MAX_SHARE_SUPPLY"
    and a: "0 \<le> asset_amount a" "asset_amount a \<le> HIVE_MAX_SHARE_SUPPLY"
    and fee: "0 \<le> fee" "fee \<le> 55535"
    and s: "s = asset_symbol (base p) \<or> s = asset_symbol (quote p)"
  shows "multiply_with_fee a p fee s =
    (if asset_symbol a = asset_symbol (base p) then
       mul_div_result (asset_amount a) (asset_amount (quote p) * fee_scale fee s (asset_symbol (quote p)))
         (asset_amount (base p) * fee_scale fee s (asset_symbol (base p))) (asset_symbol (quote p))
     else if asset_symbol a = asset_symbol (quote p) then
       mul_div_result (asset_amount a) (asset_amount (base p) * fee_scale fee s (asset_symbol (base p)))
         (asset_amount (quote p) * fee_scale fee s (asset_symbol (quote p))) (asset_symbol (base p))
     else Inl (Assert_Exception ''invalid asset * price''))"
proof -
  note ok = price_okD [OF p(1)]
  define sb where "sb = fee_scale fee s (asset_symbol (base p))"
  define sq where "sq = fee_scale fee s (asset_symbol (quote p))"
  have k: "0 < sb" "sb \<le> 65535" "0 < sq" "sq \<le> 65535"
    using fee by (simp_all add: sb_def sq_def fee_scale_def HIVE_100_PERCENT_def)
  have mag: "amount_magnitude (asset_amount a) = asset_amount a" "\<not> asset_amount a < 0"
    using a by (simp_all add: amount_magnitude_nonneg HIVE_MAX_SHARE_SUPPLY_def)
  have scales: "(if s = asset_symbol (base p) then Inr (cast_u16 (HIVE_100_PERCENT + fee), HIVE_100_PERCENT)
      else fc_assert (s = asset_symbol (quote p)) ''Invalid fee symbol for price''
             (Inr (HIVE_100_PERCENT, cast_u16 (HIVE_100_PERCENT + fee)))) = (Inr (sb, sq) :: (int \<times> int) result)"
    using s ok fee by (auto simp: sb_def sq_def fee_scale_def HIVE_100_PERCENT_def cast_simps)
  note bq = fee_product_bounds [OF a _ p(3), of sq] fee_product_bounds [OF a _ p(2), of sb]
  have nn: "0 \<le> asset_amount a * asset_amount (quote p) * sq div (asset_amount (base p) * sb)"
    "0 \<le> asset_amount a * asset_amount (base p) * sb div (asset_amount (quote p) * sq)"
    using ok a k by (simp_all add: pos_imp_zdiv_nonneg_iff)
  have c: "cast_u128 (asset_amount (quote p)) = asset_amount (quote p)"
    "cast_u128 (asset_amount (base p)) = asset_amount (base p)" using ok by (simp_all add: cast_simps)
  show ?thesis
    unfolding multiply_with_fee_def Let_def scales mag(1) rbind_Inr prod.case c
    using ok k bq nn mag(2) fee_product_bounds(5,6) [OF a _ p(2), of sb]
      fee_product_bounds(5,6) [OF a _ p(3), of sq]
    by (simp add: cast_simps u128_div_def mul_div_result_code mul_div_result_def Let_def mult.assoc
        flip: sb_def sq_def)
qed



end
