(* ===== verification/Manabar.thy ===== *)
theory Manabar
  imports Fc_Integers
begin

text \<open>
  \<open>chain/util/manabar.hpp\<close>: a mana bar that regenerates linearly over \<open>regen_time\<close> up to
  \<open>max_mana\<close> and is spent with saturating arithmetic, and the update of an account's voting
  and downvote bars. The lemmas show what regeneration computes, that none of its assertions
  fail, and the bounds of the bar.
\<close>

section \<open>The code\<close>

record manabar_params =
  max_mana :: int
  regen_time :: int

record manabar =
  current_mana :: int
  last_update_time :: int

definition manabar_params_validate :: "manabar_params \<Rightarrow> unit result" where
  "manabar_params_validate params = fc_assert (max_mana params \<ge> 0) ''max_mana >= 0'' (Inr ())"

definition regenerate_mana :: "bool \<Rightarrow> manabar \<Rightarrow> manabar_params \<Rightarrow> int \<Rightarrow> manabar result" where
  "regenerate_mana skip_cap_regen bar params now =
     rbind (manabar_params_validate params) (\<lambda>_.
     fc_assert (now \<ge> last_update_time bar) ''now >= last_update_time''
     (let dt = now - last_update_time bar in
      if current_mana bar \<ge> max_mana params then
        Inr (bar\<lparr>current_mana := max_mana params, last_update_time := now\<rparr>)
      else if dt = 0 then Inr bar
      else
        let dt = (if \<not> skip_cap_regen then (if dt > regen_time params then regen_time params else dt) else dt);
            max_mana_dt = cast_u64 (if max_mana params \<ge> 0 then max_mana params else 0);
            max_mana_dt = cast_u128 (max_mana_dt * dt)
        in if regen_time params = 0 then Inl (Undefined_Behaviour ''division by zero'')
           else
             rbind (uint128_to_uint64 (max_mana_dt div regen_time params)) (\<lambda>u_regen.
             fc_assert (u_regen \<le> int64_max) ''u_regen <= std::numeric_limits< int64_t >::max()''
             (let new_current_mana = sat_add_i64 (current_mana bar) u_regen in
              Inr (bar\<lparr>current_mana :=
                     (if new_current_mana > max_mana params then max_mana params else new_current_mana),
                   last_update_time := now\<rparr>)))))"

definition has_mana :: "manabar \<Rightarrow> int \<Rightarrow> bool" where
  "has_mana bar mana_needed \<longleftrightarrow> mana_needed \<le> 0 \<or> current_mana bar \<ge> mana_needed"

definition has_mana_u64 :: "manabar \<Rightarrow> int \<Rightarrow> bool result" where
  "has_mana_u64 bar mana_needed =
     fc_assert (mana_needed \<le> int64_max) ''mana_needed <= std::numeric_limits< int64_t >::max()''
       (Inr (has_mana bar mana_needed))"

definition use_mana :: "manabar \<Rightarrow> int \<Rightarrow> int \<Rightarrow> manabar" where
  "use_mana bar mana_used min_mana =
     (let m = sat_sub_i64 (current_mana bar) mana_used in
      bar\<lparr>current_mana := (if m < min_mana then min_mana else m)\<rparr>)"

definition use_mana_u64 :: "manabar \<Rightarrow> int \<Rightarrow> int \<Rightarrow> manabar result" where
  "use_mana_u64 bar mana_used min_mana =
     fc_assert (mana_used \<le> int64_max) ''mana_used <= std::numeric_limits< int64_t >::max()''
       (Inr (use_mana bar mana_used min_mana))"

definition HIVE_VOTING_MANA_REGENERATION_SECONDS :: int where
  "HIVE_VOTING_MANA_REGENERATION_SECONDS = 5 * 60 * 60 * 24"

definition HIVE_HF_21_STALL_BLOCK :: int where "HIVE_HF_21_STALL_BLOCK = 35922615"

text \<open>
  \<open>update_manabar\<close> reads \<open>time\<close>, \<open>downvote_pool_percent\<close> and \<open>head_block_number\<close> of the global
  properties and changes the two bars of the account; \<open>effective_vests\<close> is the account's
  \<open>get_effective_vesting_shares\<close>.
\<close>

definition update_manabar ::
  "int \<Rightarrow> int \<Rightarrow> int \<Rightarrow> int \<Rightarrow> int \<Rightarrow> manabar \<times> manabar \<Rightarrow> (manabar \<times> manabar) result" where
  "update_manabar time downvote_pool_percent head_block_number effective_vests new_mana bars =
     rbind (regenerate_mana False (fst bars)
              \<lparr>max_mana = effective_vests, regen_time = HIVE_VOTING_MANA_REGENERATION_SECONDS\<rparr> time) (\<lambda>voting.
     let voting = use_mana voting (cast_i64 (- new_mana)) 0 in
     if downvote_pool_percent \<noteq> 0 then
       rbind (if head_block_number > HIVE_HF_21_STALL_BLOCK then
                uint128_to_int64 (cast_u128 (cast_u128 effective_vests * downvote_pool_percent) div 10000)
              else Inr (cast_i64 (effective_vests * downvote_pool_percent) sdiv 10000)) (\<lambda>max_downvote.
       rbind (regenerate_mana False (snd bars)
                \<lparr>max_mana = max_downvote, regen_time = HIVE_VOTING_MANA_REGENERATION_SECONDS\<rparr> time) (\<lambda>downvote.
       Inr (voting, use_mana downvote
         (cast_i64 (cast_i64 (- new_mana) * downvote_pool_percent) sdiv 10000) 0)))
     else Inr (voting, snd bars))"

section \<open>Regeneration\<close>

definition manabar_ok :: "manabar \<Rightarrow> int \<Rightarrow> bool" where
  "manabar_ok bar now \<longleftrightarrow> in_int64 (current_mana bar) \<and> last_update_time bar \<le> now"

definition params_ok :: "manabar_params \<Rightarrow> bool" where
  "params_ok params \<longleftrightarrow> 0 \<le> max_mana params \<and> max_mana params \<le> int64_max
     \<and> 0 < regen_time params \<and> regen_time params \<le> uint32_max"

definition mana_gain :: "manabar_params \<Rightarrow> int \<Rightarrow> int" where
  "mana_gain params dt = max_mana params * min dt (regen_time params) div regen_time params"

lemma mana_gain_bounds:
  assumes "params_ok params" "0 \<le> dt"
  shows "0 \<le> mana_gain params dt" "mana_gain params dt \<le> max_mana params"
proof -
  have p: "0 \<le> max_mana params" "0 < regen_time params" using assms(1) by (simp_all add: params_ok_def)
  show "0 \<le> mana_gain params dt"
    using p assms(2) by (simp add: mana_gain_def pos_imp_zdiv_nonneg_iff)
  have "max_mana params * min dt (regen_time params) \<le> max_mana params * regen_time params"
    by (rule mult_left_mono) (use p in auto)
  then have "mana_gain params dt \<le> max_mana params * regen_time params div regen_time params"
    unfolding mana_gain_def by (rule zdiv_mono1) (use p in simp)
  then show "mana_gain params dt \<le> max_mana params" using p by simp
qed

lemma regenerate_mana_eq:
  assumes "params_ok params" "manabar_ok bar now"
  shows "regenerate_mana False bar params now =
    Inr (bar\<lparr>current_mana := min (max_mana params) (current_mana bar + mana_gain params (now - last_update_time bar)),
             last_update_time := now\<rparr>)"
proof -
  define dt where "dt = now - last_update_time bar"
  have dt: "0 \<le> dt" "now \<ge> last_update_time bar" using assms(2) by (simp_all add: dt_def manabar_ok_def)
  have p: "0 \<le> max_mana params" "max_mana params \<le> int64_max" "0 < regen_time params"
    "regen_time params \<le> uint32_max" using assms(1) by (simp_all add: params_ok_def)
  note g = mana_gain_bounds [OF assms(1) dt(1)]
  have cur: "in_int64 (current_mana bar)" using assms(2) by (simp add: manabar_ok_def)
  have val: "manabar_params_validate params = Inr ()" using p by (simp add: manabar_params_validate_def)
  consider (full) "current_mana bar \<ge> max_mana params" | (now) "current_mana bar < max_mana params" "dt = 0"
    | (regen) "current_mana bar < max_mana params" "0 < dt" using dt by linarith
  then show ?thesis
  proof cases
    case full
    then show ?thesis using val dt g by (simp add: regenerate_mana_def Let_def flip: dt_def)
  next
    case now
    then have "bar = bar\<lparr>current_mana := current_mana bar, last_update_time := now\<rparr>"
      by (simp add: dt_def)
    moreover have "mana_gain params dt = 0" using now p by (simp add: mana_gain_def min_def)
    ultimately show ?thesis
      using now val dt by (simp add: regenerate_mana_def Let_def min_def flip: dt_def)
  next
    case regen
    define t where "t = min dt (regen_time params)"
    have t: "0 \<le> t" "t \<le> uint32_max" "(if dt > regen_time params then regen_time params else dt) = t"
      using regen p by (auto simp: t_def)
    have prod: "0 \<le> max_mana params * t" "max_mana params * t \<le> uint128_max"
      using p t by (auto intro: mult_le_uint128)
    have gain: "max_mana params * t div regen_time params = mana_gain params dt"
      by (simp add: mana_gain_def t_def)
    have "sat_add_i64 (current_mana bar) (mana_gain params dt) = current_mana bar + mana_gain params dt
        \<or> max_mana params \<le> sat_add_i64 (current_mana bar) (mana_gain params dt)
          \<and> max_mana params \<le> current_mana bar + mana_gain params dt"
      using cur g p by (auto simp: sat_add_i64_clamp in_int64_def max_def min_def)
    then show ?thesis
      using regen val dt t prod gain p g
      by (auto simp: regenerate_mana_def Let_def cast_simps uint128_to_uint64_def min_def
          simp flip: dt_def)
  qed
qed

text \<open>
  Property C26. With valid parameters and a time not before the last update, regeneration
  never throws: it adds the elapsed share of the maximum, rounded down and capped at one
  full regeneration, and cuts the result at the maximum.
\<close>

theorem regenerate_mana_value:
  assumes "params_ok params" "manabar_ok bar now"
  shows "regenerate_mana False bar params now =
    Inr (bar\<lparr>current_mana := min (max_mana params) (current_mana bar + mana_gain params (now - last_update_time bar)),
             last_update_time := now\<rparr>)"
  by (rule regenerate_mana_eq [OF assms])

theorem regenerate_mana_value_witness:
  "regenerate_mana False \<lparr>current_mana = 10, last_update_time = 1000\<rparr>
     \<lparr>max_mana = 100, regen_time = 432000\<rparr> 217000 = Inr \<lparr>current_mana = 60, last_update_time = 217000\<rparr>"
  using regenerate_mana_value [of "\<lparr>max_mana = 100, regen_time = 432000\<rparr>"
      "\<lparr>current_mana = 10, last_update_time = 1000\<rparr>" 217000]
  by (simp add: params_ok_def manabar_ok_def in_int64_def mana_gain_def)



section \<open>Spending\<close>

lemma use_mana_value:
  assumes "in_int64 (current_mana bar)" "in_int64 used" "in_int64 floor"
  shows "current_mana (use_mana bar used floor) = max floor (min int64_max (current_mana bar - used))"
  using assms by (auto simp: use_mana_def Let_def sat_sub_i64_clamp in_int64_def)

lemma use_mana_keeps_time [simp]: "last_update_time (use_mana bar used floor) = last_update_time bar"
  by (simp add: use_mana_def Let_def)

lemma use_mana_exact:
  assumes "in_int64 (current_mana bar)" "in_int64 used" "has_mana bar used" "0 \<le> used"
  shows "current_mana (use_mana bar used 0) = max 0 (current_mana bar - used)"
  using assms by (auto simp: use_mana_value has_mana_def in_int64_def)

end
