(* ===== verification/Delayed_Voting.thy ===== *)
theory Delayed_Voting
  imports Fc_Integers
begin

text \<open>
  \<open>chain/util/delayed_voting_processor.hpp\<close> and the per-account part of
  \<open>chain/util/delayed_voting.cpp\<close>: the list of vesting shares that do not vote yet, grouped by
  day. The lemmas show that the stored sum is always the sum of the entries, that the
  operations never fail on it, that erasing takes exactly the asked amount from the newest
  entries, and that expiring the old entries keeps the list at no more than thirty.
\<close>

section \<open>The code\<close>

record delayed_votes_data =
  dv_time :: int
  dv_val :: int

record delayed_votes =
  dv_items :: "delayed_votes_data list"
  dv_sum :: int

definition HIVE_DELAYED_VOTING_TOTAL_INTERVAL_SECONDS :: int where
  "HIVE_DELAYED_VOTING_TOTAL_INTERVAL_SECONDS = 60 * 60 * 24 * 30"

definition HIVE_DELAYED_VOTING_INTERVAL_SECONDS :: int where
  "HIVE_DELAYED_VOTING_INTERVAL_SECONDS = 60 * 60 * 24 * 1"

definition dv_add :: "delayed_votes \<Rightarrow> int \<Rightarrow> int \<Rightarrow> delayed_votes result" where
  "dv_add v head_time val =
     (if val = 0 then Inr v
      else if dv_items v = [] then
        rbind (uadd (dv_sum v) val) (\<lambda>sum.
          Inr (v\<lparr>dv_sum := sum, dv_items := [\<lparr>dv_time = head_time, dv_val = val\<rparr>]\<rparr>))
      else
        let back_obj = last (dv_items v) in
        fc_assert (head_time \<ge> dv_time back_obj)
          ''head time must be greater or equal to last delayed voting time''
        (rbind (uadd (dv_sum v) val) (\<lambda>sum.
         if head_time \<ge> cast_u32 (dv_time back_obj + HIVE_DELAYED_VOTING_INTERVAL_SECONDS) then
           Inr (v\<lparr>dv_sum := sum, dv_items := dv_items v @ [\<lparr>dv_time = head_time, dv_val = val\<rparr>]\<rparr>)
         else
           rbind (uadd (dv_val back_obj) val) (\<lambda>bv.
             Inr (v\<lparr>dv_sum := sum, dv_items := butlast (dv_items v) @ [back_obj\<lparr>dv_val := bv\<rparr>]\<rparr>)))))"

definition dv_erase_front :: "delayed_votes \<Rightarrow> delayed_votes result" where
  "dv_erase_front v =
     (case dv_items v of
        b # bs \<Rightarrow>
          fc_assert (dv_sum v \<ge> dv_val b) ''sum of delayed votings must be greater or equal to zero''
          (rbind (usub (dv_sum v) (dv_val b)) (\<lambda>sum. Inr (v\<lparr>dv_sum := sum, dv_items := bs\<rparr>)))
      | [] \<Rightarrow> fc_assert (dv_sum v = 0) ''sum of delayed votings must be equal to zero'' (Inr v))"

text \<open>The loop of \<open>erase\<close>, on the reversed list; \<open>back()\<close> of an empty collection is undefined.\<close>

fun dv_erase_loop :: "delayed_votes_data list \<Rightarrow> int \<Rightarrow> delayed_votes_data list result" where
  "dv_erase_loop [] count = Inl (Undefined_Behaviour ''items.back()'')"
| "dv_erase_loop (obj # rest) count =
     (if count \<ge> dv_val obj then
        rbind (usub count (dv_val obj)) (\<lambda>count. dv_erase_loop rest count)
      else rbind (usub (dv_val obj) count) (\<lambda>bv. Inr (obj\<lparr>dv_val := bv\<rparr> # rest)))"

definition dv_erase :: "delayed_votes \<Rightarrow> int \<Rightarrow> delayed_votes result" where
  "dv_erase v count =
     (if count = 0 then Inr v
      else
        fc_assert (count \<le> dv_sum v)
          ''number votes to be erased must be greater or equal to sum of delayed votings''
        (if dv_sum v = count then Inr (v\<lparr>dv_sum := 0, dv_items := []\<rparr>)
         else
           rbind (usub (dv_sum v) count) (\<lambda>sum.
           rbind (dv_erase_loop (rev (dv_items v)) count) (\<lambda>items.
             Inr (v\<lparr>dv_sum := sum, dv_items := rev items\<rparr>)))))"

text \<open>\<open>delayed_voting::erase_delayed_value\<close> on the account's record.\<close>

definition erase_delayed_value :: "delayed_votes \<Rightarrow> int \<Rightarrow> delayed_votes result" where
  "erase_delayed_value v val = (if dv_sum v = 0 then Inr v else dv_erase v val)"

text \<open>
  What \<open>delayed_voting::run\<close> does to one account: as long as its oldest entry has waited the
  total interval, the entry leaves the list and its votes are handed to
  \<open>adjust_proxied_witness_votes\<close>. The result is the record and the votes handed over, in order.
\<close>

function dv_run :: "int \<Rightarrow> delayed_votes \<Rightarrow> (delayed_votes \<times> int list) result" where
  "dv_run head_time v =
     (if dv_items v \<noteq> []
         \<and> head_time \<ge> cast_u32 (dv_time (hd (dv_items v)) + HIVE_DELAYED_VOTING_TOTAL_INTERVAL_SECONDS)
      then
        rbind (dv_erase_front v) (\<lambda>v'.
        rbind (dv_run head_time v') (\<lambda>(v'', vals). Inr (v'', dv_val (hd (dv_items v)) # vals)))
      else Inr (v, []))"
  by auto
termination
  by (relation "measure (\<lambda>(h, v). length (dv_items v))")
    (auto simp: dv_erase_front_def result_simps split: list.splits)

declare dv_run.simps [simp del]

section \<open>The invariant\<close>

abbreviation sum_vals :: "delayed_votes_data list \<Rightarrow> int" where
  "sum_vals items \<equiv> sum_list (map dv_val items)"

definition dv_inv :: "int \<Rightarrow> delayed_votes \<Rightarrow> bool" where
  "dv_inv head_time v \<longleftrightarrow>
     dv_sum v = sum_vals (dv_items v) \<and> dv_sum v \<le> uint64_max
     \<and> (\<forall>i \<in> set (dv_items v). 0 < dv_val i \<and> 0 \<le> dv_time i \<and> dv_time i \<le> head_time)
     \<and> sorted_wrt (\<lambda>a b. dv_time a + HIVE_DELAYED_VOTING_INTERVAL_SECONDS \<le> dv_time b) (dv_items v)"

definition dv_empty :: delayed_votes where
  "dv_empty = \<lparr>dv_items = [], dv_sum = 0\<rparr>"

lemmas dv_seconds = HIVE_DELAYED_VOTING_INTERVAL_SECONDS_def HIVE_DELAYED_VOTING_TOTAL_INTERVAL_SECONDS_def

definition clock_ok :: "int \<Rightarrow> bool" where
  "clock_ok head_time \<longleftrightarrow> 0 \<le> head_time \<and> head_time + HIVE_DELAYED_VOTING_TOTAL_INTERVAL_SECONDS \<le> uint32_max"

lemma dv_inv_empty: "dv_inv head_time dv_empty"
  by (simp add: dv_inv_def dv_empty_def)

lemma sum_vals_nonneg: "\<forall>i \<in> set items. 0 < dv_val i \<Longrightarrow> 0 \<le> sum_vals items"
  by (rule sum_list_map_nonneg) fastforce

lemma sum_vals_member: "\<forall>i \<in> set items. 0 < dv_val i \<Longrightarrow> x \<in> set items \<Longrightarrow> dv_val x \<le> sum_vals items"
proof (induction items)
  case (Cons i items)
  then show ?case using sum_vals_nonneg [of items] by fastforce
qed simp

lemma uadd_ok: "0 \<le> a \<Longrightarrow> 0 \<le> b \<Longrightarrow> a + b \<le> uint64_max \<Longrightarrow> uadd a b = Inr (a + b)"
  by (simp add: safe_add_def)

lemma usub_ok: "0 \<le> b \<Longrightarrow> b \<le> a \<Longrightarrow> usub a b = Inr (a - b)"
  by (simp add: safe_sub_def)

lemma dv_add_ok:
  assumes inv: "dv_inv h v" and h: "clock_ok h" and val: "0 < val" "dv_sum v + val \<le> uint64_max"
  shows "\<exists>v'. dv_add v h val = Inr v' \<and> dv_inv h v' \<and> dv_sum v' = dv_sum v + val"
proof (cases "dv_items v" rule: rev_cases)
  case Nil
  then show ?thesis
    using inv val h by (simp add: dv_add_def uadd_ok dv_inv_def clock_ok_def)
next
  case (snoc xs x)
  have vals: "\<forall>i \<in> set (dv_items v). 0 < dv_val i" and x: "0 < dv_val x" "0 \<le> dv_time x" "dv_time x \<le> h"
    and s: "dv_sum v = sum_vals xs + dv_val x" and xs: "0 \<le> sum_vals xs"
    using inv snoc sum_vals_nonneg [of xs] by (auto simp: dv_inv_def)
  have c: "cast_u32 (dv_time x + HIVE_DELAYED_VOTING_INTERVAL_SECONDS)
      = dv_time x + HIVE_DELAYED_VOTING_INTERVAL_SECONDS"
    using x h by (simp add: cast_simps dv_seconds clock_ok_def)
  have u: "uadd (dv_sum v) val = Inr (dv_sum v + val)" "uadd (dv_val x) val = Inr (dv_val x + val)"
    using s xs x val by (simp_all add: uadd_ok)
  show ?thesis
  proof (cases "h \<ge> dv_time x + HIVE_DELAYED_VOTING_INTERVAL_SECONDS")
    case True
    then show ?thesis
      using inv snoc c u x s val
      by (auto simp: dv_add_def dv_inv_def sorted_wrt_append dv_seconds)
  next
    case False
    then show ?thesis
      using inv snoc c u x s val by (auto simp: dv_add_def dv_inv_def sorted_wrt_append)
  qed
qed

lemma dv_erase_loop_ok:
  "\<forall>i \<in> set rs. 0 < dv_val i \<Longrightarrow> 0 \<le> count \<Longrightarrow> count < sum_vals rs \<Longrightarrow>
   \<exists>rs' n. dv_erase_loop rs count = Inr rs' \<and> sum_vals rs' = sum_vals rs - count
     \<and> (\<forall>i \<in> set rs'. 0 < dv_val i) \<and> map dv_time rs' = drop n (map dv_time rs)"
proof (induction rs arbitrary: count)
  case (Cons r rs)
  show ?case
  proof (cases "count \<ge> dv_val r")
    case True
    then obtain rs' n where "dv_erase_loop rs (count - dv_val r) = Inr rs'"
      "sum_vals rs' = sum_vals rs - (count - dv_val r)" "\<forall>i \<in> set rs'. 0 < dv_val i"
      "map dv_time rs' = drop n (map dv_time rs)"
      using Cons.IH [of "count - dv_val r"] Cons.prems by auto
    moreover have "usub count (dv_val r) = Inr (count - dv_val r)"
      using Cons.prems True by (intro usub_ok) (auto simp: less_imp_le)
    ultimately show ?thesis
      using True by (intro exI [of _ rs'] exI [of _ "Suc n"]) simp
  next
    case False
    moreover from this have "usub (dv_val r) count = Inr (dv_val r - count)"
      using Cons.prems by (intro usub_ok) auto
    ultimately show ?thesis
      using Cons.prems by (intro exI [of _ "r\<lparr>dv_val := dv_val r - count\<rparr> # rs"] exI [of _ 0]) auto
  qed
qed simp

lemma dv_inv_times:
  "dv_inv h v \<longleftrightarrow> dv_sum v = sum_vals (dv_items v) \<and> dv_sum v \<le> uint64_max
     \<and> (\<forall>i \<in> set (dv_items v). 0 < dv_val i) \<and> (\<forall>t \<in> set (map dv_time (dv_items v)). 0 \<le> t \<and> t \<le> h)
     \<and> sorted_wrt (\<lambda>a b. a + HIVE_DELAYED_VOTING_INTERVAL_SECONDS \<le> b) (map dv_time (dv_items v))"
  by (auto simp: dv_inv_def sorted_wrt_map)

lemma dv_erase_ok:
  assumes inv: "dv_inv h v" and c: "0 \<le> count" "count \<le> dv_sum v"
  shows "\<exists>v'. dv_erase v count = Inr v' \<and> dv_inv h v' \<and> dv_sum v' = dv_sum v - count"
proof -
  consider "count = 0" | "0 < count" "count = dv_sum v" | (part) "0 < count" "count < dv_sum v"
    using c by linarith
  then show ?thesis
  proof cases
    case part
    have sr: "sum_vals (rev (dv_items v)) = dv_sum v"
      using inv by (simp add: dv_inv_def rev_map [symmetric] sum_list_rev)
    then obtain rs n where rs: "dv_erase_loop (rev (dv_items v)) count = Inr rs"
      "sum_vals rs = dv_sum v - count" "\<forall>i \<in> set rs. 0 < dv_val i"
      "map dv_time rs = drop n (map dv_time (rev (dv_items v)))"
      using dv_erase_loop_ok [of "rev (dv_items v)" count] inv part by (auto simp: dv_inv_def)
    have times: "map dv_time (rev rs) = take (length (dv_items v) - n) (map dv_time (dv_items v))"
      using rs(4) by (simp add: rev_map [symmetric] rev_drop)
    have "usub (dv_sum v) count = Inr (dv_sum v - count)" using part by (intro usub_ok) auto
    moreover have "dv_inv h (v\<lparr>dv_sum := dv_sum v - count, dv_items := rev rs\<rparr>)"
    proof -
      have "\<forall>t \<in> set (map dv_time (rev rs)). 0 \<le> t \<and> t \<le> h"
        "sorted_wrt (\<lambda>a b. a + HIVE_DELAYED_VOTING_INTERVAL_SECONDS \<le> b) (map dv_time (rev rs))"
        unfolding times using inv [unfolded dv_inv_times] by (blast dest: in_set_takeD, simp add: sorted_wrt_take)
      moreover have "sum_vals (rev rs) = dv_sum v - count"
        using rs(2) by (simp add: rev_map [symmetric] sum_list_rev)
      ultimately show ?thesis
        using inv rs(3) part unfolding dv_inv_times by simp
    qed
    ultimately show ?thesis using rs part by (auto simp: dv_erase_def)
  qed (use inv in \<open>auto simp: dv_erase_def dv_inv_def\<close>)
qed

lemma erase_delayed_value_ok:
  assumes "dv_inv h v" "0 \<le> count" "count \<le> dv_sum v"
  shows "\<exists>v'. erase_delayed_value v count = Inr v' \<and> dv_inv h v' \<and> dv_sum v' = dv_sum v - count"
  using dv_erase_ok [OF assms] assms by (auto simp: erase_delayed_value_def)

lemma dv_erase_front_ok:
  assumes "dv_inv h v" "dv_items v = b # bs"
  shows "dv_erase_front v = Inr (v\<lparr>dv_sum := dv_sum v - dv_val b, dv_items := bs\<rparr>)
    \<and> dv_inv h (v\<lparr>dv_sum := dv_sum v - dv_val b, dv_items := bs\<rparr>)"
proof -
  have b: "0 < dv_val b" and s: "dv_sum v = dv_val b + sum_vals bs" and nn: "0 \<le> sum_vals bs"
    using assms sum_vals_nonneg [of bs] by (auto simp: dv_inv_def)
  then have "usub (dv_sum v) (dv_val b) = Inr (dv_sum v - dv_val b)" by (intro usub_ok) auto
  then show ?thesis using assms b s nn by (auto simp: dv_erase_front_def dv_inv_def)
qed

lemma dv_run_ok:
  assumes "dv_inv h v" "clock_ok h"
  shows "\<exists>v' vals. dv_run h v = Inr (v', vals) \<and> dv_inv h v' \<and> dv_sum v = sum_list vals + dv_sum v'
    \<and> (\<exists>n. dv_items v' = drop n (dv_items v) \<and> vals = map dv_val (take n (dv_items v)))
    \<and> (\<forall>i \<in> set (dv_items v'). h < dv_time i + HIVE_DELAYED_VOTING_TOTAL_INTERVAL_SECONDS)"
  using assms
proof (induction "dv_items v" arbitrary: v)
  case Nil
  then show ?case by (subst dv_run.simps) simp
next
  case (Cons b bs)
  have t: "0 \<le> dv_time b" "dv_time b \<le> h" using Cons by (auto simp: dv_inv_def simp flip: Cons.hyps(2))
  then have c: "cast_u32 (dv_time b + HIVE_DELAYED_VOTING_TOTAL_INTERVAL_SECONDS)
      = dv_time b + HIVE_DELAYED_VOTING_TOTAL_INTERVAL_SECONDS"
    using Cons.prems(2) by (simp add: cast_simps dv_seconds clock_ok_def)
  show ?case
  proof (cases "h \<ge> dv_time b + HIVE_DELAYED_VOTING_TOTAL_INTERVAL_SECONDS")
    case True
    let ?w = "v\<lparr>dv_sum := dv_sum v - dv_val b, dv_items := bs\<rparr>"
    note f = dv_erase_front_ok [OF Cons.prems(1) Cons.hyps(2) [symmetric]]
    obtain v' vals n where w: "dv_run h ?w = Inr (v', vals)" "dv_inv h v'"
      "dv_sum ?w = sum_list vals + dv_sum v'" "dv_items v' = drop n bs" "vals = map dv_val (take n bs)"
      "\<forall>i \<in> set (dv_items v'). h < dv_time i + HIVE_DELAYED_VOTING_TOTAL_INTERVAL_SECONDS"
      using Cons.hyps(1) [of ?w] f Cons.prems(2) by auto
    have "dv_run h v = Inr (v', dv_val b # vals)"
      using True c f w(1) by (subst dv_run.simps) (simp flip: Cons.hyps(2))
    then show ?thesis
      using w by (intro exI [of _ v'] exI [of _ "dv_val b # vals"]) (auto simp flip: Cons.hyps(2) intro: exI [of _ "Suc n"])
  next
    case False
    have "dv_time b \<le> dv_time i" if "i \<in> set (dv_items v)" for i
      using that Cons.prems(1) by (auto simp: dv_inv_def dv_seconds simp flip: Cons.hyps(2))
    then have "\<forall>i \<in> set (dv_items v). h < dv_time i + HIVE_DELAYED_VOTING_TOTAL_INTERVAL_SECONDS"
      using False by force
    then show ?thesis
      using False c Cons.prems by (subst dv_run.simps) (auto simp flip: Cons.hyps(2) intro: exI [of _ 0])
  qed
qed

lemma sorted_gap_length:
  "sorted_wrt (\<lambda>a b. a + D \<le> b) ts \<Longrightarrow> ts \<noteq> [] \<Longrightarrow> hd ts + D * (int (length ts) - 1) \<le> last ts"
proof (induction ts)
  case (Cons t ts)
  show ?case
  proof (cases ts)
    case (Cons u us)
    have "hd ts + D * (int (length ts) - 1) \<le> last ts"
      using Cons.IH Cons.prems Cons by (simp del: length_Cons)
    moreover have "t + D \<le> hd ts" using Cons.prems Cons by simp
    ultimately show ?thesis using Cons by (simp add: algebra_simps)
  qed simp
qed simp

lemma dv_length_bound:
  assumes "dv_inv h v"
    and "\<forall>i \<in> set (dv_items v). h < dv_time i + HIVE_DELAYED_VOTING_TOTAL_INTERVAL_SECONDS"
  shows "length (dv_items v) \<le> 30"
proof (cases "dv_items v = []")
  case False
  define ts where "ts = map dv_time (dv_items v)"
  have "ts \<noteq> []" using False by (simp add: ts_def)
  then have "ts \<noteq> []" "hd ts \<in> set ts" "last ts \<in> set ts" by simp_all
  then have "hd ts + HIVE_DELAYED_VOTING_INTERVAL_SECONDS * (int (length ts) - 1) \<le> last ts"
    "last ts \<le> h" "h < hd ts + HIVE_DELAYED_VOTING_TOTAL_INTERVAL_SECONDS"
    using assms sorted_gap_length [of HIVE_DELAYED_VOTING_INTERVAL_SECONDS ts]
    by (auto simp: dv_inv_times ts_def)
  then show ?thesis by (simp add: dv_seconds ts_def)
qed simp

section \<open>Reachable states\<close>

text \<open>
  An account's record changes when votes are added at head time, when votes are erased by a
  withdrawal, and when a new block advances the head time and expires the oldest entries.
\<close>

inductive dv_step :: "int \<times> delayed_votes \<Rightarrow> int \<times> delayed_votes \<Rightarrow> bool" where
  add_votes: "0 < val \<Longrightarrow> dv_add v h val = Inr v' \<Longrightarrow> dv_step (h, v) (h, v')"
| withdraw: "0 \<le> count \<Longrightarrow> erase_delayed_value v count = Inr v' \<Longrightarrow> dv_step (h, v) (h, v')"
| block: "h \<le> h' \<Longrightarrow> clock_ok h' \<Longrightarrow> dv_run h' v = Inr (v', vals) \<Longrightarrow> dv_step (h, v) (h', v')"

inductive_cases dv_step_cases: "dv_step (h, v) (h', v')"

definition dv_reachable :: "int \<times> delayed_votes \<Rightarrow> bool" where
  "dv_reachable s \<longleftrightarrow> (\<exists>h0. clock_ok h0 \<and> dv_step\<^sup>*\<^sup>* (h0, dv_empty) s)"

lemma dv_inv_mono: "dv_inv h v \<Longrightarrow> h \<le> h' \<Longrightarrow> dv_inv h' v"
  by (auto simp: dv_inv_def)

lemma dv_step_inv:
  assumes "dv_step (h, v) (h', v')" "dv_inv h v" "clock_ok h"
  shows "dv_inv h' v' \<and> clock_ok h'"
proof -
  have nn: "0 \<le> dv_sum v" using assms(2) sum_vals_nonneg by (auto simp: dv_inv_def)
  show ?thesis using assms(1)
  proof cases
    case (add_votes val)
    have "dv_sum v + val \<le> uint64_max"
    proof (rule ccontr)
      assume big: "\<not> ?thesis"
      then have "uadd (dv_sum v) val = Inl Overflow_Exception"
        using nn add_votes by (simp add: safe_add_def)
      then show False using add_votes by (auto simp: dv_add_def Let_def result_simps split: if_splits)
    qed
    with add_votes assms(2,3) dv_add_ok [of h v val] show ?thesis by auto
  next
    case (withdraw count)
    show ?thesis
    proof (cases "count \<le> dv_sum v")
      case True
      with withdraw assms erase_delayed_value_ok [of h v count] show ?thesis by auto
    next
      case False
      then have "dv_sum v = 0" "v' = v"
        using withdraw nn by (auto simp: erase_delayed_value_def dv_erase_def result_simps split: if_splits)
      then show ?thesis using withdraw assms by simp
    qed
  next
    case (block vals)
    then show ?thesis
      using dv_run_ok [of h' v] dv_inv_mono [OF assms(2), of h'] by auto
  qed
qed

lemma dv_reachable_inv: "dv_reachable (h, v) \<Longrightarrow> dv_inv h v \<and> clock_ok h"
proof -
  assume "dv_reachable (h, v)"
  then obtain h0 where "clock_ok h0" "dv_step\<^sup>*\<^sup>* (h0, dv_empty) (h, v)" by (auto simp: dv_reachable_def)
  from this(2,1) show ?thesis
  proof (induction "(h, v)" arbitrary: h v rule: rtranclp_induct)
    case base
    then show ?case by (simp add: dv_inv_empty)
  next
    case (step y)
    obtain h1 v1 where y: "y = (h1, v1)" by (cases y)
    from step.hyps(3) [OF y] step.prems have "dv_inv h1 v1" "clock_ok h1" by auto
    with step.hyps(2) y show ?case using dv_step_inv by blast
  qed
qed

text \<open>
  Property C9. In every reachable state of an account the stored sum is the sum of the
  entries, each of them positive and at least a day apart; adding votes only fails on a
  64-bit overflow, withdrawing up to the sum removes exactly that many votes, and expiring
  at a new head time hands over exactly the votes of the entries that waited thirty days and
  leaves at most thirty entries.
\<close>

theorem delayed_votes_reachable:
  assumes "dv_reachable (h, v)"
  shows "dv_inv h v
    \<and> (\<forall>val. 0 < val \<and> dv_sum v + val \<le> uint64_max \<longrightarrow>
         (\<exists>v'. dv_add v h val = Inr v' \<and> dv_sum v' = dv_sum v + val))
    \<and> (\<forall>count. 0 \<le> count \<and> count \<le> dv_sum v \<longrightarrow>
         (\<exists>v'. erase_delayed_value v count = Inr v' \<and> dv_sum v' = dv_sum v - count))
    \<and> (\<forall>h'. h \<le> h' \<and> clock_ok h' \<longrightarrow>
         (\<exists>v' vals. dv_run h' v = Inr (v', vals) \<and> length (dv_items v') \<le> 30
            \<and> vals @ map dv_val (dv_items v') = map dv_val (dv_items v)))"
proof -
  have inv: "dv_inv h v" "clock_ok h" using dv_reachable_inv [OF assms] by auto
  have run: "\<exists>v' vals. dv_run h' v = Inr (v', vals) \<and> length (dv_items v') \<le> 30
      \<and> vals @ map dv_val (dv_items v') = map dv_val (dv_items v)" if hh: "h \<le> h'" "clock_ok h'" for h'
  proof -
    have "dv_inv h' v" by (rule dv_inv_mono [OF inv(1) hh(1)])
    then obtain v' vals n where "dv_run h' v = Inr (v', vals)" "dv_inv h' v'"
      "dv_items v' = drop n (dv_items v)" "vals = map dv_val (take n (dv_items v))"
      "\<forall>i \<in> set (dv_items v'). h' < dv_time i + HIVE_DELAYED_VOTING_TOTAL_INTERVAL_SECONDS"
      using dv_run_ok [of h' v] hh(2) by auto
    then show ?thesis
      using dv_length_bound [of h' v'] by (auto simp flip: map_append)
  qed
  have add: "\<exists>v'. dv_add v h val = Inr v' \<and> dv_sum v' = dv_sum v + val"
    if "0 < val \<and> dv_sum v + val \<le> uint64_max" for val
    using dv_add_ok [OF inv, of val] that by auto
  have er: "\<exists>v'. erase_delayed_value v count = Inr v' \<and> dv_sum v' = dv_sum v - count"
    if "0 \<le> count \<and> count \<le> dv_sum v" for count
    using erase_delayed_value_ok [OF inv(1), of count] that by auto
  show ?thesis
    by (intro conjI allI impI inv(1)) (rule add er run; simp)+
qed

lemma dv_sample_reachable:
  "dv_reachable (100, \<lparr>dv_items = [\<lparr>dv_time = 100, dv_val = 5\<rparr>], dv_sum = 5\<rparr>)"
  unfolding dv_reachable_def
  by (intro exI [of _ 100] conjI r_into_rtranclp dv_step.add_votes [of 5])
    (simp_all add: clock_ok_def dv_seconds dv_add_def dv_empty_def safe_add_def)

theorem delayed_votes_reachable_witness:
  "\<exists>v'. erase_delayed_value \<lparr>dv_items = [\<lparr>dv_time = 100, dv_val = 5\<rparr>], dv_sum = 5\<rparr> 2 = Inr v' \<and> dv_sum v' = 3"
proof -
  let ?v = "\<lparr>dv_items = [\<lparr>dv_time = 100, dv_val = 5\<rparr>], dv_sum = 5\<rparr> :: delayed_votes"
  have "\<forall>count. 0 \<le> count \<and> count \<le> dv_sum ?v \<longrightarrow>
      (\<exists>v'. erase_delayed_value ?v count = Inr v' \<and> dv_sum v' = dv_sum ?v - count)"
    using delayed_votes_reachable [OF dv_sample_reachable] by (elim conjE)
  from this [rule_format, of 2] show ?thesis by simp
qed

end
