(* ===== verification/Chain_State.thy ===== *)
theory Chain_State
  imports Asset Manabar Delayed_Voting Resource_Dynamics
begin

text \<open>
  The chain's objects and the database record that holds them. A chainbase index is a list in
  the order of the object ids. Its primary lookups are by a unique key: \<open>tbl_find\<close> finds the
  object, \<open>tbl_modify\<close> is \<open>database::modify\<close>, \<open>tbl_remove\<close> is \<open>database::remove\<close> and \<open>tbl_emplace\<close>
  is \<open>database::create\<close>, which throws when the unique key is taken. The object types are those
  of \<open>account_object.hpp\<close>, \<open>global_property_object.hpp\<close> and \<open>hive_objects.hpp\<close>, restricted to
  the fields the modelled operations read or write. A field whose C++ type fixes its symbol
  (\<open>HIVE_asset\<close>, \<open>HBD_asset\<close>, \<open>VEST_asset\<close>, and the supply counters) is its amount.

  The last section defines what \<open>validate_invariants\<close> compares: the funds of a symbol held by
  all objects, the supply counter of that symbol, and their difference \<open>gap\<close>. Every operation
  on balances is characterised by how it changes the gap.
\<close>

section \<open>Tables\<close>

fun tbl_find :: "('a \<Rightarrow> 'k) \<Rightarrow> 'k \<Rightarrow> 'a list \<Rightarrow> 'a option" where
  "tbl_find key k [] = None"
| "tbl_find key k (x # xs) = (if key x = k then Some x else tbl_find key k xs)"

fun tbl_modify :: "('a \<Rightarrow> 'k) \<Rightarrow> 'k \<Rightarrow> ('a \<Rightarrow> 'a) \<Rightarrow> 'a list \<Rightarrow> 'a list" where
  "tbl_modify key k f [] = []"
| "tbl_modify key k f (x # xs) = (if key x = k then f x # xs else x # tbl_modify key k f xs)"

fun tbl_remove :: "('a \<Rightarrow> 'k) \<Rightarrow> 'k \<Rightarrow> 'a list \<Rightarrow> 'a list" where
  "tbl_remove key k [] = []"
| "tbl_remove key k (x # xs) = (if key x = k then xs else x # tbl_remove key k xs)"

definition tbl_get :: "('a \<Rightarrow> 'k) \<Rightarrow> 'k \<Rightarrow> 'a list \<Rightarrow> 'a result" where
  "tbl_get key k xs = (case tbl_find key k xs of None \<Rightarrow> Inl (Out_Of_Range_Exception ''unknown key'') | Some x \<Rightarrow> Inr x)"

definition tbl_emplace :: "('a \<Rightarrow> 'k) \<Rightarrow> 'a \<Rightarrow> 'a list \<Rightarrow> 'a list result" where
  "tbl_emplace key x xs =
     (if tbl_find key (key x) xs = None then Inr (xs @ [x])
      else Inl (Logic_Error_Exception ''could not insert object, most likely a uniqueness constraint was violated''))"

abbreviation total :: "('a \<Rightarrow> int) \<Rightarrow> 'a list \<Rightarrow> int" where
  "total g xs \<equiv> sum_list (map g xs)"

lemma tbl_find_key: "tbl_find key k xs = Some x \<Longrightarrow> key x = k \<and> x \<in> set xs"
  by (induction xs) (auto split: if_splits)

lemma tbl_get_eq [result_simps]: "tbl_get key k xs = Inr x \<longleftrightarrow> tbl_find key k xs = Some x"
  by (simp add: tbl_get_def split: option.splits)

lemma total_modify: "tbl_find key k xs = Some x \<Longrightarrow> total g (tbl_modify key k f xs) = total g xs + g (f x) - g x"
  by (induction xs) (auto split: if_splits)

lemma total_remove: "tbl_find key k xs = Some x \<Longrightarrow> total g (tbl_remove key k xs) = total g xs - g x"
  by (induction xs) (auto split: if_splits)

lemma tbl_emplace_eq [result_simps]:
  "tbl_emplace key x xs = Inr ys \<longleftrightarrow> tbl_find key (key x) xs = None \<and> ys = xs @ [x]"
  by (auto simp: tbl_emplace_def)

lemma tbl_find_modify:
  "(\<And>x. key (f x) = key x) \<Longrightarrow>
   tbl_find key k (tbl_modify key k' f xs) = (if k = k' then map_option f (tbl_find key k xs) else tbl_find key k xs)"
  by (induction xs) auto

lemma tbl_find_append: "tbl_find key k (xs @ ys) = (case tbl_find key k xs of None \<Rightarrow> tbl_find key k ys | Some x \<Rightarrow> Some x)"
  by (induction xs) auto

lemma tbl_find_remove_other: "k \<noteq> k' \<Longrightarrow> tbl_find key k (tbl_remove key k' xs) = tbl_find key k xs"
  by (induction xs) auto

lemma tbl_find_none: "tbl_find key k xs = None \<longleftrightarrow> k \<notin> key ` set xs"
  by (induction xs) auto

lemma distinct_modify:
  "(\<And>x. key (f x) = key x) \<Longrightarrow> distinct (map key (tbl_modify key k f xs)) \<longleftrightarrow> distinct (map key xs)"
proof -
  assume "\<And>x. key (f x) = key x"
  then have "map key (tbl_modify key k f xs) = map key xs" by (induction xs) auto
  then show ?thesis by simp
qed

lemma set_tbl_remove: "set (tbl_remove key k xs) \<subseteq> set xs"
  by (induction xs) auto

lemma distinct_remove: "distinct (map key xs) \<Longrightarrow> distinct (map key (tbl_remove key k xs))"
  using set_tbl_remove by (induction xs) (auto, fastforce)

lemma find_remove_same: "distinct (map key xs) \<Longrightarrow> tbl_find key k (tbl_remove key k xs) = None"
  by (induction xs) (auto simp: tbl_find_none)

lemma find_distinct: "distinct (map key xs) \<Longrightarrow> x \<in> set xs \<Longrightarrow> tbl_find key (key x) xs = Some x"
  by (induction xs) force+

lemma distinct_emplace:
  "tbl_find key (key x) xs = None \<Longrightarrow> distinct (map key xs) \<Longrightarrow> distinct (map key (xs @ [x]))"
  by (auto simp: tbl_find_none)

lemma length_tbl_remove: "tbl_find key k xs = Some x \<Longrightarrow> length (tbl_remove key k xs) < length xs"
  by (induction xs) (auto split: if_splits)

lemma length_tbl_modify [simp]: "length (tbl_modify key k f xs) = length xs"
  by (induction xs) auto

section \<open>Objects\<close>

record account_object =
  acc_id :: nat
  acc_name :: string
  hbd_seconds :: int
  savings_hbd_seconds :: int
  voting_manabar :: manabar
  downvote_manabar :: manabar
  rc_manabar :: manabar
  hbd_balance :: int
  savings_hbd_balance :: int
  reward_hbd_balance :: int
  reward_hive_balance :: int
  reward_vesting_hive :: int
  balance :: int
  savings_balance :: int
  reward_vesting_balance :: int
  vesting_shares :: int
  delegated_vesting_shares :: int
  received_vesting_shares :: int
  vesting_withdraw_rate :: int
  curation_rewards :: int
  posting_rewards :: int
  withdrawn :: int
  to_withdraw :: int
  rc_adjustment :: int
  acc_delegated_rc :: int
  received_rc :: int
  last_max_rc :: int
  pending_claimed_accounts :: int
  acc_delayed_votes :: delayed_votes
  hbd_seconds_last_update :: int
  hbd_last_interest_payment :: int
  savings_hbd_seconds_last_update :: int
  savings_hbd_last_interest_payment :: int
  next_vesting_withdrawal :: int
  governance_vote_expiration_ts :: int
  withdraw_routes :: int
  pending_escrow_transfers :: int
  open_recurrent_transfers :: int
  witnesses_voted_for :: int
  savings_withdraw_requests :: int
  acc_proxy :: "nat option"
  proxied_vsf_votes :: "int list"
  can_vote :: bool

record dynamic_global_property_object =
  head_block_number :: int
  gpo_time :: int
  virtual_supply :: int
  current_supply :: int
  current_hbd_supply :: int
  total_vesting_fund_hive :: int
  total_vesting_shares :: int
  total_reward_fund_hive :: int
  pending_rewarded_vesting_shares :: int
  pending_rewarded_vesting_hive :: int
  hbd_interest_rate :: int
  hbd_print_rate :: int
  hbd_stop_percent :: int
  hbd_start_percent :: int
  downvote_pool_percent :: int
  gpo_current_witness :: string
  vesting_reward_percent :: int
  content_reward_percent :: int
  proposal_fund_percent :: int
  dhf_interval_ledger :: int
  available_account_subsidies :: int
  delegation_return_period :: int
  current_remove_threshold :: int

record feed_history_object =
  current_median_history :: price
  market_median_history :: price
  current_min_history :: price
  current_max_history :: price

record convert_request_object =
  cr_owner :: nat
  cr_amount :: int
  cr_requestid :: int
  cr_conversion_date :: int

record collateralized_convert_request_object =
  ccr_owner :: nat
  collateral_amount :: int
  converted_amount :: int
  ccr_requestid :: int
  ccr_conversion_date :: int

record escrow_object =
  escrow_id :: int
  escrow_from :: string
  escrow_to :: string
  escrow_agent :: string
  ratification_deadline :: int
  escrow_expiration :: int
  escrow_hbd_balance :: asset
  escrow_hive_balance :: asset
  pending_fee :: asset
  to_approved :: bool
  agent_approved :: bool
  disputed :: bool

record savings_withdraw_object =
  sw_from :: string
  sw_to :: string
  sw_memo :: string
  sw_request_id :: int
  sw_amount :: asset
  sw_complete :: int

record limit_order_object =
  lo_created :: int
  lo_expiration :: int
  lo_seller :: string
  lo_orderid :: int
  for_sale :: int
  sell_price :: price

record reward_fund_object =
  rf_name :: string
  reward_balance :: asset

record liquidity_reward_balance_object =
  lr_owner :: nat
  lr_last_update :: int
  lr_weight :: int
  hive_volume :: int
  hbd_volume :: int

record vesting_delegation_object =
  vd_delegator :: nat
  vd_delegatee :: nat
  vd_min_delegation_time :: int
  vd_vesting_shares :: int

record vesting_delegation_expiration_object =
  ve_delegator :: nat
  ve_vesting_shares :: int
  ve_expiration :: int

record withdraw_vesting_route_object =
  wr_from_account :: string
  wr_to_account :: string
  wr_percent :: int
  wr_auto_vest :: bool

record rc_direct_delegation_object =
  rcd_from :: nat
  rcd_to :: nat
  delegated_rc :: int

record rc_expired_delegation_object =
  rce_from :: nat
  expired_delegation :: int

datatype witness_schedule_type = Elected | Timeshare | Miner | None_Scheduled

record witness_object =
  w_owner :: string
  w_votes :: int
  w_schedule :: witness_schedule_type
  virtual_last_update :: int
  virtual_position :: int
  virtual_scheduled_time :: int
  w_is_disabled :: bool
  available_witness_account_subsidies :: int

record witness_vote_object =
  wv_witness :: string
  wv_account :: string

record witness_schedule_object =
  current_virtual_time :: int
  timeshare_weight :: int
  miner_weight :: int
  elected_weight :: int
  witness_pay_normalization_factor :: int
  median_account_creation_fee :: int
  account_subsidy_rd :: rd_dynamics_params
  account_subsidy_witness_rd :: rd_dynamics_params

record chain_db =
  accounts :: "account_object list"
  gpo :: dynamic_global_property_object
  feed_history :: feed_history_object
  limit_orders :: "limit_order_object list"
  escrows :: "escrow_object list"
  savings_withdraws :: "savings_withdraw_object list"
  convert_requests :: "convert_request_object list"
  collateralized_convert_requests :: "collateralized_convert_request_object list"
  reward_funds :: "reward_fund_object list"
  liquidity_rewards :: "liquidity_reward_balance_object list"
  vesting_delegations :: "vesting_delegation_object list"
  vesting_delegation_expirations :: "vesting_delegation_expiration_object list"
  withdraw_vesting_routes :: "withdraw_vesting_route_object list"
  rc_direct_delegations :: "rc_direct_delegation_object list"
  rc_expired_delegations :: "rc_expired_delegation_object list"
  witnesses :: "witness_object list"
  witness_votes :: "witness_vote_object list"
  witness_schedule :: witness_schedule_object
  future_witness_schedule :: witness_schedule_object
  processed_hardforks :: nat

definition escrow_is_approved :: "escrow_object \<Rightarrow> bool" where
  "escrow_is_approved e \<longleftrightarrow> to_approved e \<and> agent_approved e"

definition amount_for_sale :: "limit_order_object \<Rightarrow> asset" where
  "amount_for_sale o1 = mk_asset (for_sale o1) (asset_symbol (base (sell_price o1)))"

definition amount_to_receive :: "limit_order_object \<Rightarrow> asset result" where
  "amount_to_receive o1 = asset_mul_price (amount_for_sale o1) (sell_price o1)"

abbreviation escrow_key :: "escrow_object \<Rightarrow> string \<times> int" where
  "escrow_key e \<equiv> (escrow_from e, escrow_id e)"

abbreviation savings_key :: "savings_withdraw_object \<Rightarrow> string \<times> int" where
  "savings_key w \<equiv> (sw_from w, sw_request_id w)"

abbreviation order_key :: "limit_order_object \<Rightarrow> string \<times> int" where
  "order_key o1 \<equiv> (lo_seller o1, lo_orderid o1)"

abbreviation convert_key :: "convert_request_object \<Rightarrow> nat \<times> int" where
  "convert_key r \<equiv> (cr_owner r, cr_requestid r)"

abbreviation collateralized_key :: "collateralized_convert_request_object \<Rightarrow> nat \<times> int" where
  "collateralized_key r \<equiv> (ccr_owner r, ccr_requestid r)"

section \<open>Lookups and updates of the database\<close>

definition get_account :: "chain_db \<Rightarrow> string \<Rightarrow> account_object result" where
  "get_account db name = tbl_get acc_name name (accounts db)"

definition get_account_by_id :: "chain_db \<Rightarrow> nat \<Rightarrow> account_object result" where
  "get_account_by_id db i = tbl_get acc_id i (accounts db)"

definition modify_account :: "string \<Rightarrow> (account_object \<Rightarrow> account_object) \<Rightarrow> chain_db \<Rightarrow> chain_db" where
  "modify_account name f db = db\<lparr>accounts := tbl_modify acc_name name f (accounts db)\<rparr>"

definition modify_gpo :: "(dynamic_global_property_object \<Rightarrow> dynamic_global_property_object) \<Rightarrow> chain_db \<Rightarrow> chain_db" where
  "modify_gpo f db = db\<lparr>gpo := f (gpo db)\<rparr>"

definition has_hardfork :: "chain_db \<Rightarrow> nat \<Rightarrow> bool" where
  "has_hardfork db hardfork \<longleftrightarrow> processed_hardforks db > hardfork"

definition head_block_time :: "chain_db \<Rightarrow> int" where
  "head_block_time db = gpo_time (gpo db)"

definition get_escrow :: "chain_db \<Rightarrow> string \<Rightarrow> int \<Rightarrow> escrow_object result" where
  "get_escrow db name i = tbl_get escrow_key (name, i) (escrows db)"

definition order_id_mask :: "chain_db \<Rightarrow> int \<Rightarrow> int" where
  "order_id_mask db orderid = (if \<not> has_hardfork db 6 then orderid mod 65536 else orderid)"

definition get_limit_order :: "chain_db \<Rightarrow> string \<Rightarrow> int \<Rightarrow> limit_order_object result" where
  "get_limit_order db name orderid = tbl_get order_key (name, order_id_mask db orderid) (limit_orders db)"

definition get_savings_withdraw :: "chain_db \<Rightarrow> string \<Rightarrow> int \<Rightarrow> savings_withdraw_object result" where
  "get_savings_withdraw db owner request_id = tbl_get savings_key (owner, request_id) (savings_withdraws db)"

lemmas db_lookup_defs = get_account_def get_account_by_id_def get_escrow_def get_limit_order_def get_savings_withdraw_def

section \<open>Funds and supply\<close>

text \<open>
  \<open>acc_funds\<close>, \<open>object_funds\<close> and \<open>gpo_funds\<close> are the summands of \<open>validate_invariants\<close>, by symbol;
  \<open>supply_counter\<close> is the counter each total is compared with (lines 6507 to 6509), and \<open>pending_gap\<close>
  the comparison of line 6511.
\<close>

definition asset_of :: "asset_symbol_type \<Rightarrow> asset \<Rightarrow> int" where
  "asset_of s a = (if asset_symbol a = s then asset_amount a else 0)"

definition acc_funds :: "asset_symbol_type \<Rightarrow> account_object \<Rightarrow> int" where
  "acc_funds s a =
     (if s = HIVE_SYMBOL then balance a + savings_balance a + reward_hive_balance a
      else if s = HBD_SYMBOL then hbd_balance a + savings_hbd_balance a + reward_hbd_balance a
      else if s = VESTS_SYMBOL then vesting_shares a + reward_vesting_balance a
      else 0)"

definition escrow_funds :: "asset_symbol_type \<Rightarrow> escrow_object \<Rightarrow> int" where
  "escrow_funds s e = asset_of s (escrow_hive_balance e) + asset_of s (escrow_hbd_balance e) + asset_of s (pending_fee e)"

definition object_funds :: "asset_symbol_type \<Rightarrow> chain_db \<Rightarrow> int" where
  "object_funds s db =
     total (\<lambda>r. asset_of s (mk_asset (cr_amount r) HBD_SYMBOL)) (convert_requests db)
   + total (\<lambda>r. asset_of s (mk_asset (collateral_amount r) HIVE_SYMBOL)) (collateralized_convert_requests db)
   + total (\<lambda>o1. asset_of s (amount_for_sale o1)) (limit_orders db)
   + total (escrow_funds s) (escrows db)
   + total (\<lambda>w. asset_of s (sw_amount w)) (savings_withdraws db)
   + total (\<lambda>f. asset_of s (reward_balance f)) (reward_funds db)"

definition gpo_funds :: "asset_symbol_type \<Rightarrow> dynamic_global_property_object \<Rightarrow> int" where
  "gpo_funds s g =
     (if s = HIVE_SYMBOL then total_vesting_fund_hive g + total_reward_fund_hive g + pending_rewarded_vesting_hive g
      else 0)"

definition supply_counter :: "asset_symbol_type \<Rightarrow> dynamic_global_property_object \<Rightarrow> int" where
  "supply_counter s g =
     (if s = HIVE_SYMBOL then current_supply g
      else if s = HBD_SYMBOL then current_hbd_supply g
      else if s = VESTS_SYMBOL then total_vesting_shares g + pending_rewarded_vesting_shares g
      else 0)"

definition gap :: "asset_symbol_type \<Rightarrow> chain_db \<Rightarrow> int" where
  "gap s db = total (acc_funds s) (accounts db) + object_funds s db + gpo_funds s (gpo db) - supply_counter s (gpo db)"

definition pending_gap :: "chain_db \<Rightarrow> int" where
  "pending_gap db = total reward_vesting_hive (accounts db) - pending_rewarded_vesting_hive (gpo db)"

definition supply_matches :: "chain_db \<Rightarrow> bool" where
  "supply_matches db \<longleftrightarrow> gap HIVE_SYMBOL db = 0 \<and> gap HBD_SYMBOL db = 0 \<and> gap VESTS_SYMBOL db = 0 \<and> pending_gap db = 0"

lemma asset_of_simps [simp]:
  "asset_of s (mk_asset 0 s') = 0"
  "asset_of s (mk_asset v s) = v"
  "s \<noteq> s' \<Longrightarrow> asset_of s (mk_asset v s') = 0"
  by (simp_all add: asset_of_def)

lemma symbols_distinct [simp]:
  "HIVE_SYMBOL \<noteq> HBD_SYMBOL" "HIVE_SYMBOL \<noteq> VESTS_SYMBOL" "HBD_SYMBOL \<noteq> VESTS_SYMBOL"
  "HBD_SYMBOL \<noteq> HIVE_SYMBOL" "VESTS_SYMBOL \<noteq> HIVE_SYMBOL" "VESTS_SYMBOL \<noteq> HBD_SYMBOL"
  by (simp_all add: HIVE_ASSET_NUM_HIVE_def HIVE_ASSET_NUM_HBD_def HIVE_ASSET_NUM_VESTS_def)

lemma asset_of_add: "asset_add a b = Inr c \<Longrightarrow> asset_of s c = asset_of s a + asset_of s b"
  by (auto simp: asset_add_def same_symbol_def asset_of_def result_simps dest!: sadd_eq_Inr)

lemma asset_of_sub: "asset_sub a b = Inr c \<Longrightarrow> asset_of s c = asset_of s a - asset_of s b"
  by (auto simp: asset_sub_def same_symbol_def asset_of_def result_simps dest!: ssub_eq_Inr)

lemma asset_of_neg: "asset_neg a = Inr b \<Longrightarrow> asset_of s b = - asset_of s a"
  by (auto simp: asset_neg_def asset_of_def result_simps dest!: sneg_eq_Inr)

lemma gap_modify_account:
  "get_account db name = Inr a \<Longrightarrow> gap s (modify_account name f db) = gap s db + acc_funds s (f a) - acc_funds s a"
  by (simp add: gap_def modify_account_def db_lookup_defs result_simps total_modify object_funds_def)

lemma pending_gap_modify_account:
  "get_account db name = Inr a \<Longrightarrow>
   pending_gap (modify_account name f db) = pending_gap db + reward_vesting_hive (f a) - reward_vesting_hive a"
  by (simp add: pending_gap_def modify_account_def db_lookup_defs result_simps total_modify)

lemma total_modify_same: "(\<And>x. g (f x) = g x) \<Longrightarrow> total g (tbl_modify key k f xs) = total g xs"
  by (induction xs) auto

lemma gap_modify_account_same:
  "(\<And>a. acc_funds s (f a) = acc_funds s a) \<Longrightarrow> gap s (modify_account name f db) = gap s db"
  by (simp add: gap_def modify_account_def total_modify_same object_funds_def)

lemma pending_gap_modify_account_same:
  "(\<And>a. reward_vesting_hive (f a) = reward_vesting_hive a) \<Longrightarrow> pending_gap (modify_account name f db) = pending_gap db"
  by (simp add: pending_gap_def modify_account_def total_modify_same)

lemma gap_modify_gpo:
  "gap s (modify_gpo f db) = gap s db + gpo_funds s (f (gpo db)) - gpo_funds s (gpo db) - supply_counter s (f (gpo db)) + supply_counter s (gpo db)"
  by (simp add: gap_def modify_gpo_def object_funds_def)

lemma pending_gap_modify_gpo:
  "pending_gap (modify_gpo f db) = pending_gap db - pending_rewarded_vesting_hive (f (gpo db)) + pending_rewarded_vesting_hive (gpo db)"
  by (simp add: pending_gap_def modify_gpo_def)

section \<open>Account invariants\<close>

definition acc_nonneg :: "account_object \<Rightarrow> bool" where
  "acc_nonneg a \<longleftrightarrow> 0 \<le> balance a \<and> 0 \<le> savings_balance a \<and> 0 \<le> reward_hive_balance a
     \<and> 0 \<le> hbd_balance a \<and> 0 \<le> savings_hbd_balance a \<and> 0 \<le> reward_hbd_balance a
     \<and> 0 \<le> vesting_shares a \<and> 0 \<le> reward_vesting_balance a"

definition accounts_nonneg :: "chain_db \<Rightarrow> bool" where
  "accounts_nonneg db \<longleftrightarrow> list_all acc_nonneg (accounts db)"

definition acc_card :: "account_object \<Rightarrow> nat \<times> string \<times> int \<times> int" where
  "acc_card a = (acc_id a, acc_name a, pending_escrow_transfers a, savings_withdraw_requests a)"

lemma find_acc_card:
  assumes "map acc_card xs = map acc_card ys" "tbl_find acc_name n xs = Some a"
  obtains b where "tbl_find acc_name n ys = Some b" "acc_card b = acc_card a"
proof -
  have "map_option acc_card (tbl_find acc_name n xs) = map_option acc_card (tbl_find acc_name n ys)"
    using assms(1)
  proof (induction xs ys rule: list_induct2')
    case (4 x xs y ys)
    then have "acc_name x = acc_name y" by (simp add: acc_card_def)
    with 4 show ?case by simp
  qed simp_all
  with assms(2) that show ?thesis by (cases "tbl_find acc_name n ys") auto
qed

lemma list_all_modify:
  "list_all P xs \<Longrightarrow> (\<And>x. tbl_find key k xs = Some x \<Longrightarrow> P x \<Longrightarrow> P (f x)) \<Longrightarrow> list_all P (tbl_modify key k f xs)"
  by (induction xs) auto

lemma map_modify_same: "(\<And>x. h (f x) = h x) \<Longrightarrow> map h (tbl_modify key k f xs) = map h xs"
  by (induction xs) auto

lemma accounts_modify_account [simp]: "accounts (modify_account n f db) = tbl_modify acc_name n f (accounts db)"
  by (simp add: modify_account_def)

section \<open>Weakest preconditions of the asset operations and lookups\<close>

lemma wp_asset_add [wp]:
  assumes "\<And>c. \<lbrakk>\<forall>s. asset_of s c = asset_of s a + asset_of s b; asset_symbol a = asset_symbol b;
     asset_symbol c = asset_symbol a; asset_amount c = asset_amount a + asset_amount b\<rbrakk> \<Longrightarrow> Q c"
  shows "on_ok (asset_add a b) Q"
  by (rule on_okI, rule assms) (auto simp: asset_of_add asset_add_def same_symbol_def result_simps dest!: sadd_eq_Inr)

lemma wp_asset_sub [wp]:
  assumes "\<And>c. \<lbrakk>\<forall>s. asset_of s c = asset_of s a - asset_of s b; asset_symbol a = asset_symbol b;
     asset_symbol c = asset_symbol a; asset_amount c = asset_amount a - asset_amount b\<rbrakk> \<Longrightarrow> Q c"
  shows "on_ok (asset_sub a b) Q"
  by (rule on_okI, rule assms) (auto simp: asset_of_sub asset_sub_def same_symbol_def result_simps dest!: ssub_eq_Inr)

lemma wp_asset_neg [wp]:
  assumes "\<And>c. \<lbrakk>\<forall>s. asset_of s c = - asset_of s a; asset_symbol c = asset_symbol a; asset_amount c = - asset_amount a\<rbrakk> \<Longrightarrow> Q c"
  shows "on_ok (asset_neg a) Q"
  by (rule on_okI, rule assms) (auto simp: asset_of_neg asset_neg_def result_simps dest!: sneg_eq_Inr)

lemma wp_asset_leq [wp]:
  assumes "asset_symbol a = asset_symbol b \<Longrightarrow> Q (asset_amount a \<le> asset_amount b)"
  shows "on_ok (asset_leq a b) Q"
  using assms by (auto simp: asset_leq_def same_symbol_def intro!: wp)

lemma wp_asset_mul_price [wp]:
  assumes "\<And>c. asset_mul_price a p = Inr c \<Longrightarrow> Q c"
  shows "on_ok (asset_mul_price a p) Q"
  using assms by (rule on_okI)

lemma wp_tbl_get [wp]:
  assumes "\<And>x. tbl_find key k xs = Some x \<Longrightarrow> Q x"
  shows "on_ok (tbl_get key k xs) Q"
  using assms by (auto intro!: on_okI simp: result_simps)

lemma wp_tbl_emplace [wp]:
  assumes "tbl_find key (key x) xs = None \<Longrightarrow> Q (xs @ [x])"
  shows "on_ok (tbl_emplace key x xs) Q"
  using assms by (auto intro!: on_okI simp: result_simps)

lemma wp_lookups [wp]:
  "(\<And>a. tbl_find acc_name n (accounts db) = Some a \<Longrightarrow> Q a) \<Longrightarrow> on_ok (get_account db n) Q"
  "(\<And>a. tbl_find acc_id i (accounts db) = Some a \<Longrightarrow> Q a) \<Longrightarrow> on_ok (get_account_by_id db i) Q"
  "(\<And>e. tbl_find escrow_key (n, j) (escrows db) = Some e \<Longrightarrow> Q1 e) \<Longrightarrow> on_ok (get_escrow db n j) Q1"
  "(\<And>o1. tbl_find order_key (n, order_id_mask db j) (limit_orders db) = Some o1 \<Longrightarrow> Q2 o1) \<Longrightarrow> on_ok (get_limit_order db n j) Q2"
  "(\<And>w. tbl_find savings_key (n, j) (savings_withdraws db) = Some w \<Longrightarrow> Q3 w) \<Longrightarrow> on_ok (get_savings_withdraw db n j) Q3"
  unfolding db_lookup_defs by (rule wp_tbl_get, assumption)+

section \<open>A new account and a sample state\<close>

definition new_account :: "nat \<Rightarrow> string \<Rightarrow> account_object" where
  "new_account i name =
     \<lparr>acc_id = i, acc_name = name, hbd_seconds = 0, savings_hbd_seconds = 0,
      voting_manabar = \<lparr>current_mana = 0, last_update_time = 0\<rparr>, downvote_manabar = \<lparr>current_mana = 0, last_update_time = 0\<rparr>,
      rc_manabar = \<lparr>current_mana = 0, last_update_time = 0\<rparr>, hbd_balance = 0, savings_hbd_balance = 0, reward_hbd_balance = 0, reward_hive_balance = 0, reward_vesting_hive = 0,
      balance = 0, savings_balance = 0, reward_vesting_balance = 0, vesting_shares = 0, delegated_vesting_shares = 0,
      received_vesting_shares = 0, vesting_withdraw_rate = 0, curation_rewards = 0, posting_rewards = 0,
      withdrawn = 0, to_withdraw = 0, rc_adjustment = 0, acc_delegated_rc = 0, received_rc = 0, last_max_rc = 0,
      pending_claimed_accounts = 0, acc_delayed_votes = dv_empty,
      hbd_seconds_last_update = 0, hbd_last_interest_payment = 0, savings_hbd_seconds_last_update = 0,
      savings_hbd_last_interest_payment = 0, next_vesting_withdrawal = uint32_max, governance_vote_expiration_ts = uint32_max,
      withdraw_routes = 0, pending_escrow_transfers = 0, open_recurrent_transfers = 0, witnesses_voted_for = 0,
      savings_withdraw_requests = 0, acc_proxy = None, proxied_vsf_votes = [0, 0, 0, 0], can_vote = True\<rparr>"

definition sample_gpo :: dynamic_global_property_object where
  "sample_gpo =
     \<lparr>head_block_number = 70000000, gpo_time = 1700000000, virtual_supply = 2000, current_supply = 1000,
      current_hbd_supply = 300, total_vesting_fund_hive = 0, total_vesting_shares = 0, total_reward_fund_hive = 0,
      pending_rewarded_vesting_shares = 0, pending_rewarded_vesting_hive = 0, hbd_interest_rate = 2000, hbd_print_rate = 10000,
      hbd_stop_percent = 3000, hbd_start_percent = 2000, downvote_pool_percent = 2500,
      gpo_current_witness = ''alice'', vesting_reward_percent = 1500, content_reward_percent = 6500, proposal_fund_percent = 1000,
      dhf_interval_ledger = 0, available_account_subsidies = 0, delegation_return_period = 432000, current_remove_threshold = 200\<rparr>"

definition sample_schedule :: witness_schedule_object where
  "sample_schedule = \<lparr>current_virtual_time = 0, timeshare_weight = 5, miner_weight = 1, elected_weight = 1,
     witness_pay_normalization_factor = 25, median_account_creation_fee = 3000, account_subsidy_rd = sample_rd,
     account_subsidy_witness_rd = sample_rd\<rparr>"

definition sample_db :: chain_db where
  "sample_db =
     \<lparr>accounts = [(new_account 0 ''alice'')\<lparr>balance := 700, hbd_balance := 300\<rparr>,
        (new_account 1 ''bob'')\<lparr>balance := 300\<rparr>, new_account 2 ''carol''],
      gpo = sample_gpo,
      feed_history = \<lparr>current_median_history = sample_price, market_median_history = sample_price,
        current_min_history = sample_price, current_max_history = sample_price\<rparr>,
      limit_orders = [], escrows = [], savings_withdraws = [], convert_requests = [],
      collateralized_convert_requests = [], reward_funds = [], liquidity_rewards = [],
      vesting_delegations = [], vesting_delegation_expirations = [], withdraw_vesting_routes = [], rc_direct_delegations = [],
      rc_expired_delegations = [], witnesses = [], witness_votes = [], witness_schedule = sample_schedule,
      future_witness_schedule = sample_schedule, processed_hardforks = 28\<rparr>"

end
