(* ===== verification/Balances.thy ===== *)
theory Balances
  imports Chain_State
begin

text \<open>
  The balance primitives of \<open>database.cpp\<close> through which every evaluator moves funds:
  \<open>get_balance\<close>, \<open>modify_balance\<close>, \<open>adjust_balance\<close>, \<open>adjust_savings_balance\<close>,
  \<open>adjust_reward_balance\<close>, \<open>adjust_supply\<close>, with the payment of HBD interest they trigger, and
  \<open>validate_invariants\<close>. Each is characterised by the change of \<open>gap\<close> (funds held minus supply
  counter) for every symbol. Virtual operations are notifications and not part of the state.
\<close>

section \<open>Interest on HBD\<close>

definition HIVE_SECONDS_PER_YEAR :: int where "HIVE_SECONDS_PER_YEAR = 60 * 60 * 24 * 365"

definition HIVE_HBD_INTEREST_COMPOUND_INTERVAL_SEC :: int where
  "HIVE_HBD_INTEREST_COMPOUND_INTERVAL_SEC = 60 * 60 * 24 * 30"

definition HIVE_BLOCKS_PER_DAY :: int where "HIVE_BLOCKS_PER_DAY = 24 * 60 * 60 div 3"

definition hbd_interest :: "int \<Rightarrow> int \<Rightarrow> int result" where
  "hbd_interest seconds rate =
     rbind (uint128_to_uint64 (cast_u128 (seconds div HIVE_SECONDS_PER_YEAR * rate) div HIVE_100_PERCENT))
       (\<lambda>interest. Inr (cast_i64 interest))"

record hbd_account =
  hbd_bal :: int
  hbd_secs :: int
  hbd_updated :: int
  hbd_paid :: int

definition pay_interest :: "chain_db \<Rightarrow> int \<Rightarrow> chain_db result" where
  "pay_interest db interest_paid =
     rbind (sadd (current_hbd_supply (gpo db)) interest_paid) (\<lambda>hbd.
     rbind (asset_mul_price (mk_asset interest_paid HBD_SYMBOL) (current_median_history (feed_history db))) (\<lambda>v.
     rbind (asset_add (mk_asset (virtual_supply (gpo db)) HIVE_SYMBOL) v) (\<lambda>vs.
       Inr (modify_gpo (\<lambda>g. g\<lparr>current_hbd_supply := hbd, virtual_supply := asset_amount vs\<rparr>) db))))"

definition accrue_interest :: "chain_db \<Rightarrow> hbd_account \<Rightarrow> (hbd_account \<times> chain_db) result" where
  "accrue_interest db h =
     (let now = head_block_time db in
      if hbd_updated h \<noteq> now then
        let secs = cast_u128 (hbd_secs h + cast_u128 (hbd_bal h) * cast_u128 (now - hbd_updated h));
            h = h\<lparr>hbd_secs := secs, hbd_updated := now\<rparr> in
        if secs > 0 \<and> now - hbd_paid h > HIVE_HBD_INTEREST_COMPOUND_INTERVAL_SEC then
          rbind (hbd_interest secs (hbd_interest_rate (gpo db))) (\<lambda>interest_paid.
          rbind (sadd (hbd_bal h) interest_paid) (\<lambda>b.
          rbind (pay_interest db interest_paid) (\<lambda>db.
            Inr (h\<lparr>hbd_bal := b, hbd_secs := 0, hbd_paid := now\<rparr>, db))))
        else Inr (h, db)
      else Inr (h, db))"

definition liquid_hbd :: "account_object \<Rightarrow> hbd_account" where
  "liquid_hbd a = \<lparr>hbd_bal = hbd_balance a, hbd_secs = hbd_seconds a,
     hbd_updated = hbd_seconds_last_update a, hbd_paid = hbd_last_interest_payment a\<rparr>"

definition set_liquid_hbd :: "hbd_account \<Rightarrow> account_object \<Rightarrow> account_object" where
  "set_liquid_hbd h a = a\<lparr>hbd_balance := hbd_bal h, hbd_seconds := hbd_secs h,
     hbd_seconds_last_update := hbd_updated h, hbd_last_interest_payment := hbd_paid h\<rparr>"

definition savings_hbd :: "account_object \<Rightarrow> hbd_account" where
  "savings_hbd a = \<lparr>hbd_bal = savings_hbd_balance a, hbd_secs = savings_hbd_seconds a,
     hbd_updated = savings_hbd_seconds_last_update a, hbd_paid = savings_hbd_last_interest_payment a\<rparr>"

definition set_savings_hbd :: "hbd_account \<Rightarrow> account_object \<Rightarrow> account_object" where
  "set_savings_hbd h a = a\<lparr>savings_hbd_balance := hbd_bal h, savings_hbd_seconds := hbd_secs h,
     savings_hbd_seconds_last_update := hbd_updated h, savings_hbd_last_interest_payment := hbd_paid h\<rparr>"

section \<open>Balance operations\<close>

definition get_balance :: "account_object \<Rightarrow> asset_symbol_type \<Rightarrow> asset result" where
  "get_balance a symbol =
     (if symbol = HIVE_SYMBOL then Inr (mk_asset (balance a) HIVE_SYMBOL)
      else if symbol = HBD_SYMBOL then Inr (mk_asset (hbd_balance a) HBD_SYMBOL)
      else Inl (Assert_Exception ''Invalid symbol''))"

definition get_savings_balance :: "account_object \<Rightarrow> asset_symbol_type \<Rightarrow> asset result" where
  "get_savings_balance a symbol =
     (if symbol = HIVE_SYMBOL then Inr (mk_asset (savings_balance a) HIVE_SYMBOL)
      else if symbol = HBD_SYMBOL then Inr (mk_asset (savings_hbd_balance a) HBD_SYMBOL)
      else Inl (Assert_Exception ''invalid symbol''))"

definition modify_balance :: "chain_db \<Rightarrow> string \<Rightarrow> asset \<Rightarrow> bool \<Rightarrow> chain_db result" where
  "modify_balance db name delta check_balance =
     rbind (get_account db name) (\<lambda>a.
       if asset_symbol delta = HIVE_SYMBOL then
         rbind (sadd (balance a) (asset_amount delta)) (\<lambda>b.
           fc_assert (check_balance \<longrightarrow> b \<ge> 0) ''Insufficient HIVE funds''
             (Inr (modify_account name (\<lambda>a. a\<lparr>balance := b\<rparr>) db)))
       else if asset_symbol delta = HBD_SYMBOL then
         rbind (if \<not> has_hardfork db 25 then accrue_interest db (liquid_hbd a) else Inr (liquid_hbd a, db)) (\<lambda>(h, db).
         rbind (sadd (hbd_bal h) (asset_amount delta)) (\<lambda>b.
           fc_assert (check_balance \<longrightarrow> b \<ge> 0) ''Insufficient HBD funds''
             (Inr (modify_account name (set_liquid_hbd (h\<lparr>hbd_bal := b\<rparr>)) db))))
       else if asset_symbol delta = VESTS_SYMBOL then
         rbind (sadd (vesting_shares a) (asset_amount delta)) (\<lambda>b.
           fc_assert (check_balance \<longrightarrow> b \<ge> 0) ''Insufficient VESTS funds''
             (Inr (modify_account name (\<lambda>a. a\<lparr>vesting_shares := b\<rparr>) db)))
       else Inl (Assert_Exception ''invalid symbol''))"

definition adjust_balance :: "chain_db \<Rightarrow> string \<Rightarrow> asset \<Rightarrow> chain_db result" where
  "adjust_balance db name delta =
     rbind (get_account db name) (\<lambda>a.
     rbind (if asset_amount delta < 0 then
              rbind (get_balance a (asset_symbol delta)) (\<lambda>available.
              rbind (asset_neg delta) (\<lambda>required.
              rbind (asset_leq required available) (\<lambda>enough.
                fc_assert enough ''Account does not have sufficient funds for balance adjustment'' (Inr ()))))
            else Inr ()) (\<lambda>_.
       modify_balance db name delta (has_hardfork db 20)))"

definition adjust_savings_balance :: "chain_db \<Rightarrow> string \<Rightarrow> asset \<Rightarrow> chain_db result" where
  "adjust_savings_balance db name delta =
     (let check_balance = has_hardfork db 20 in
      rbind (get_account db name) (\<lambda>a.
        if asset_symbol delta = HIVE_SYMBOL then
          rbind (sadd (savings_balance a) (asset_amount delta)) (\<lambda>b.
            fc_assert (check_balance \<longrightarrow> b \<ge> 0) ''Insufficient savings HIVE funds''
              (Inr (modify_account name (\<lambda>a. a\<lparr>savings_balance := b\<rparr>) db)))
        else if asset_symbol delta = HBD_SYMBOL then
          rbind (accrue_interest db (savings_hbd a)) (\<lambda>(h, db).
          rbind (sadd (hbd_bal h) (asset_amount delta)) (\<lambda>b.
            fc_assert (check_balance \<longrightarrow> b \<ge> 0) ''Insufficient savings HBD funds''
              (Inr (modify_account name (set_savings_hbd (h\<lparr>hbd_bal := b\<rparr>)) db))))
        else Inl (Assert_Exception ''invalid symbol'')))"

definition modify_reward_balance :: "chain_db \<Rightarrow> string \<Rightarrow> asset \<Rightarrow> asset \<Rightarrow> bool \<Rightarrow> chain_db result" where
  "modify_reward_balance db name value_delta share_delta check_balance =
     rbind (get_account db name) (\<lambda>a.
       if asset_symbol value_delta = HIVE_SYMBOL then
         if asset_amount share_delta = 0 then
           rbind (sadd (reward_hive_balance a) (asset_amount value_delta)) (\<lambda>b.
             fc_assert (check_balance \<longrightarrow> b \<ge> 0) ''Insufficient reward HIVE funds''
               (Inr (modify_account name (\<lambda>a. a\<lparr>reward_hive_balance := b\<rparr>) db)))
         else
           rbind (sadd (reward_vesting_hive a) (asset_amount value_delta)) (\<lambda>v.
           rbind (asset_add (mk_asset (reward_vesting_balance a) VESTS_SYMBOL) share_delta) (\<lambda>b.
             fc_assert (check_balance \<longrightarrow> asset_amount b \<ge> 0) ''Insufficient reward VESTS funds''
               (Inr (modify_account name
                  (\<lambda>a. a\<lparr>reward_vesting_hive := v, reward_vesting_balance := asset_amount b\<rparr>) db))))
       else if asset_symbol value_delta = HBD_SYMBOL then
         fc_assert (asset_amount share_delta = 0) ''share_delta.amount.value == 0''
           (rbind (sadd (reward_hbd_balance a) (asset_amount value_delta)) (\<lambda>b.
             fc_assert (check_balance \<longrightarrow> b \<ge> 0) ''Insufficient reward HBD funds''
               (Inr (modify_account name (\<lambda>a. a\<lparr>reward_hbd_balance := b\<rparr>) db))))
       else Inl (Assert_Exception ''invalid symbol''))"

definition adjust_reward_balance :: "chain_db \<Rightarrow> string \<Rightarrow> asset \<Rightarrow> asset \<Rightarrow> chain_db result" where
  "adjust_reward_balance db name value_delta share_delta =
     rbind (is_vesting (asset_symbol value_delta)) (\<lambda>v.
     rbind (if v then Inr False else is_vesting (asset_symbol share_delta)) (\<lambda>ok.
       fc_assert ok ''value_delta.symbol.is_vesting() == false && share_delta.symbol.is_vesting()''
         (modify_reward_balance db name value_delta share_delta (has_hardfork db 20))))"

definition adjust_supply :: "chain_db \<Rightarrow> asset \<Rightarrow> bool \<Rightarrow> chain_db result" where
  "adjust_supply db delta adjust_vesting =
     (let check_supply = has_hardfork db 20; g = gpo db;
          adjust_vesting = (if head_block_number g < HIVE_BLOCKS_PER_DAY * 7 then False else adjust_vesting) in
      if asset_symbol delta = HIVE_SYMBOL then
        rbind (if adjust_vesting \<and> asset_amount delta > 0 then smul (asset_amount delta) 9 else Inr 0) (\<lambda>new_vesting.
        rbind (sadd (asset_amount delta) new_vesting) (\<lambda>d.
        rbind (sadd (current_supply g) d) (\<lambda>cs.
        rbind (sadd (virtual_supply g) d) (\<lambda>vs.
        rbind (sadd (total_vesting_fund_hive g) new_vesting) (\<lambda>vf.
          fc_assert (check_supply \<longrightarrow> cs \<ge> 0) ''props.current_supply.amount.value >= 0''
            (Inr (modify_gpo (\<lambda>g. g\<lparr>current_supply := cs, virtual_supply := vs, total_vesting_fund_hive := vf\<rparr>) db)))))))
      else if asset_symbol delta = HBD_SYMBOL then
        rbind (sadd (current_hbd_supply g) (asset_amount delta)) (\<lambda>hbd.
        rbind (asset_mul_price (mk_asset hbd HBD_SYMBOL) (current_median_history (feed_history db))) (\<lambda>v.
        rbind (asset_add v (mk_asset (current_supply g) HIVE_SYMBOL)) (\<lambda>vs.
          fc_assert (check_supply \<longrightarrow> hbd \<ge> 0) ''props.get_current_hbd_supply().amount.value >= 0''
            (Inr (modify_gpo (\<lambda>g. g\<lparr>current_hbd_supply := hbd, virtual_supply := asset_amount vs\<rparr>) db)))))
      else Inl (Assert_Exception ''invalid symbol''))"

lemmas balance_op_defs = modify_balance_def adjust_savings_balance_def modify_reward_balance_def adjust_supply_def

section \<open>Effect on funds and supply\<close>

text \<open>The balance primitives change only accounts and the supply counters.\<close>

definition same_objects :: "chain_db \<Rightarrow> chain_db \<Rightarrow> bool" where
  "same_objects db db' \<longleftrightarrow>
     feed_history db' = feed_history db \<and> limit_orders db' = limit_orders db \<and> escrows db' = escrows db
   \<and> savings_withdraws db' = savings_withdraws db \<and> convert_requests db' = convert_requests db
   \<and> collateralized_convert_requests db' = collateralized_convert_requests db \<and> reward_funds db' = reward_funds db
   \<and> processed_hardforks db' = processed_hardforks db \<and> head_block_time db' = head_block_time db"

definition accounts_step :: "chain_db \<Rightarrow> chain_db \<Rightarrow> bool" where
  "accounts_step db db' \<longleftrightarrow> map acc_card (accounts db') = map acc_card (accounts db)
     \<and> (has_hardfork db 20 \<longrightarrow> accounts_nonneg db \<longrightarrow> accounts_nonneg db')"

text \<open>
  \<open>moves d p db db'\<close>: the step from \<open>db\<close> to \<open>db'\<close> changes the gap of each symbol by \<open>d\<close> and the gap of
  pending vesting rewards by \<open>p\<close>, leaves every object but the accounts and the counters alone, and
  from hardfork 20 on keeps balances non-negative.
\<close>

definition moves :: "(asset_symbol_type \<Rightarrow> int) \<Rightarrow> int \<Rightarrow> chain_db \<Rightarrow> chain_db \<Rightarrow> bool" where
  "moves d p db db' \<longleftrightarrow> (\<forall>s. gap s db' = gap s db + d s) \<and> pending_gap db' = pending_gap db + p
     \<and> same_objects db db' \<and> accounts_step db db'"

lemma modify_gpo_frame [simp]:
  "accounts (modify_gpo f db) = accounts db" "feed_history (modify_gpo f db) = feed_history db"
  "processed_hardforks (modify_gpo f db) = processed_hardforks db" "gpo (modify_gpo f db) = f (gpo db)"
  "get_account (modify_gpo f db) = get_account db"
  by (simp_all add: modify_gpo_def get_account_def fun_eq_iff)

lemma modify_account_frame [simp]:
  "feed_history (modify_account n h db) = feed_history db" "gpo (modify_account n h db) = gpo db"
  "limit_orders (modify_account n h db) = limit_orders db" "escrows (modify_account n h db) = escrows db"
  "savings_withdraws (modify_account n h db) = savings_withdraws db"
  "convert_requests (modify_account n h db) = convert_requests db"
  "collateralized_convert_requests (modify_account n h db) = collateralized_convert_requests db"
  "reward_funds (modify_account n h db) = reward_funds db"
  "processed_hardforks (modify_account n h db) = processed_hardforks db"
  by (simp_all add: modify_account_def)

lemmas funds_defs = gpo_funds_def supply_counter_def acc_funds_def

lemma moves_modify_account:
  assumes a: "tbl_find acc_name n (accounts db) = Some a"
    and f: "\<And>s. acc_funds s (f a) = acc_funds s a + d s" "reward_vesting_hive (f a) = reward_vesting_hive a + p"
      "\<And>a. acc_card (f a) = acc_card a" "has_hardfork db 20 \<Longrightarrow> acc_nonneg a \<Longrightarrow> acc_nonneg (f a)"
  shows "moves d p db (modify_account n f db)"
  using assms
  by (auto simp: moves_def gap_modify_account pending_gap_modify_account get_account_def result_simps same_objects_def
      head_block_time_def accounts_step_def map_modify_same accounts_nonneg_def intro!: list_all_modify)

lemma moves_modify_gpo:
  assumes "\<And>s. gpo_funds s (f (gpo db)) - gpo_funds s (gpo db) - supply_counter s (f (gpo db)) + supply_counter s (gpo db) = d s"
    and "pending_rewarded_vesting_hive (f (gpo db)) = pending_rewarded_vesting_hive (gpo db) - p"
    and "gpo_time (f (gpo db)) = gpo_time (gpo db)"
  shows "moves d p db (modify_gpo f db)"
  using assms
  by (simp add: moves_def gap_modify_gpo pending_gap_modify_gpo accounts_step_def accounts_nonneg_def)
    (simp add: same_objects_def modify_gpo_def head_block_time_def flip: assms(1))

lemma moves_trans: "moves d p a b \<Longrightarrow> moves d' p' b c \<Longrightarrow> moves (\<lambda>s. d s + d' s) (p + p') a c"
  by (auto simp: moves_def same_objects_def accounts_step_def has_hardfork_def)

lemma wp_pay_interest:
  assumes "\<And>db'. moves (\<lambda>s. - asset_of s (mk_asset v HBD_SYMBOL)) 0 db db' \<Longrightarrow> accounts db' = accounts db \<Longrightarrow> Q db'"
  shows "on_ok (pay_interest db v) Q"
  unfolding pay_interest_def
  by (intro wp assms moves_modify_gpo) (simp_all add: funds_defs asset_of_def)

lemma wp_accrue_interest:
  assumes "\<And>h' db'. moves (\<lambda>s. - asset_of s (mk_asset (hbd_bal h' - hbd_bal h) HBD_SYMBOL)) 0 db db' \<Longrightarrow>
     accounts db' = accounts db \<Longrightarrow> Q (h', db')"
  shows "on_ok (accrue_interest db h) Q"
proof -
  have same: "Q (h', db)" if "hbd_bal h' = hbd_bal h" for h'
    using that by (intro assms) (auto simp: moves_def same_objects_def accounts_step_def)
  show ?thesis
    unfolding accrue_interest_def Let_def hbd_interest_def uint128_to_uint64_def
    by (intro wp wp_pay_interest) (auto intro!: assms same)
qed

lemma set_hbd_funds [simp]:
  "acc_funds s (set_liquid_hbd h a) = acc_funds s a + asset_of s (mk_asset (hbd_bal h - hbd_balance a) HBD_SYMBOL)"
  "acc_funds s (set_savings_hbd h a) = acc_funds s a + asset_of s (mk_asset (hbd_bal h - savings_hbd_balance a) HBD_SYMBOL)"
  "reward_vesting_hive (set_liquid_hbd h a) = reward_vesting_hive a"
  "reward_vesting_hive (set_savings_hbd h a) = reward_vesting_hive a"
  "hbd_bal (liquid_hbd a) = hbd_balance a" "hbd_bal (savings_hbd a) = savings_hbd_balance a"
  "acc_card (set_liquid_hbd h a) = acc_card a" "acc_card (set_savings_hbd h a) = acc_card a"
  "acc_nonneg a \<Longrightarrow> acc_nonneg (set_liquid_hbd h a) \<longleftrightarrow> 0 \<le> hbd_bal h"
  "acc_nonneg a \<Longrightarrow> acc_nonneg (set_savings_hbd h a) \<longleftrightarrow> 0 \<le> hbd_bal h"
  by (auto simp: acc_funds_def set_liquid_hbd_def set_savings_hbd_def asset_of_def liquid_hbd_def savings_hbd_def
      acc_card_def acc_nonneg_def)

lemma moves_sum: "moves d p a b \<Longrightarrow> moves d' p' b c \<Longrightarrow> (\<And>s. d s + d' s = e s) \<Longrightarrow> p + p' = q \<Longrightarrow> moves e q a c"
  using moves_trans [of d p a b d' p' c] by (simp add: moves_def)

lemma moves_hardfork: "moves d p db db' \<Longrightarrow> has_hardfork db' n = has_hardfork db n"
  by (simp add: moves_def same_objects_def has_hardfork_def)

lemma moves_refl: "moves (\<lambda>s. 0) 0 db db"
  by (simp add: moves_def same_objects_def accounts_step_def)

lemma store_hbd_moves:
  assumes "moves (\<lambda>s. - asset_of s (mk_asset (hbd_bal h - b0) HBD_SYMBOL)) 0 db db1" "accounts db1 = accounts db"
    and "tbl_find acc_name n (accounts db) = Some a" "has_hardfork db 20 \<longrightarrow> 0 \<le> hbd_bal h + d"
    and upd: "\<And>s h. acc_funds s (upd h a) = acc_funds s a + asset_of s (mk_asset (hbd_bal h - b0) HBD_SYMBOL)"
      "\<And>h a. reward_vesting_hive (upd h a) = reward_vesting_hive a" "\<And>h a. acc_card (upd h a) = acc_card a"
      "\<And>h. acc_nonneg a \<Longrightarrow> acc_nonneg (upd h a) \<longleftrightarrow> 0 \<le> hbd_bal h"
  shows "moves (\<lambda>s. asset_of s (mk_asset d HBD_SYMBOL)) 0 db (modify_account n (upd (h\<lparr>hbd_bal := hbd_bal h + d\<rparr>)) db1)"
proof (rule moves_sum [OF assms(1)])
  show "moves (\<lambda>s. asset_of s (mk_asset (hbd_bal h + d - b0) HBD_SYMBOL)) 0 db1
      (modify_account n (upd (h\<lparr>hbd_bal := hbd_bal h + d\<rparr>)) db1)"
    using assms moves_hardfork [OF assms(1), of 20] by (intro moves_modify_account) auto
qed (simp_all add: asset_of_def)

lemma wp_modify_balance:
  assumes "\<And>db'. moves (\<lambda>s. asset_of s delta) 0 db db' \<Longrightarrow> Q db'" and chk: "chk = has_hardfork db 20"
  shows "on_ok (modify_balance db n delta chk) Q"
proof -
  have hbd: "asset_of s delta = asset_of s (mk_asset (asset_amount delta) HBD_SYMBOL)" if "asset_symbol delta = HBD_SYMBOL" for s
    using that by (simp add: asset_of_def)
  show ?thesis
    unfolding modify_balance_def chk
  proof (intro wp wp_accrue_interest assms, goal_cases)
    case (2 a h' db' h db1)
    then show ?case
      using store_hbd_moves [of h "hbd_balance a" db db1 n a "asset_amount delta" set_liquid_hbd] by (simp add: hbd)
  next
    case (3 a h db1)
    then show ?case
      using store_hbd_moves [of h "hbd_balance a" db db1 n a "asset_amount delta" set_liquid_hbd] moves_refl
      by (auto simp: hbd)
  qed (rule moves_modify_account, assumption, auto simp: acc_funds_def asset_of_def acc_card_def acc_nonneg_def)+
qed

lemma wp_adjust_balance [wp]:
  assumes "\<And>db'. moves (\<lambda>s. asset_of s delta) 0 db db' \<Longrightarrow> Q db'"
  shows "on_ok (adjust_balance db n delta) Q"
  unfolding adjust_balance_def get_balance_def by (intro wp wp_modify_balance assms refl)

lemma wp_adjust_savings_balance [wp]:
  assumes "\<And>db'. moves (\<lambda>s. asset_of s delta) 0 db db' \<Longrightarrow> Q db'"
  shows "on_ok (adjust_savings_balance db n delta) Q"
  unfolding adjust_savings_balance_def Let_def
proof (intro wp wp_accrue_interest assms, goal_cases)
  case (2 a h' db' h db1)
  moreover have "asset_of s delta = asset_of s (mk_asset (asset_amount delta) HBD_SYMBOL)" for s
    using 2 by (simp add: asset_of_def)
  ultimately show ?case
    using store_hbd_moves [of h "savings_hbd_balance a" db db1 n a "asset_amount delta" set_savings_hbd] by simp
qed (rule moves_modify_account, assumption, auto simp: acc_funds_def asset_of_def acc_card_def acc_nonneg_def)

lemma wp_is_vesting [wp]: "(\<And>b. is_vesting s = Inr b \<Longrightarrow> Q b) \<Longrightarrow> on_ok (is_vesting s) Q"
  by (rule on_okI)

lemma wp_adjust_reward_balance [wp]:
  assumes "\<And>db'. moves (\<lambda>s. if asset_amount w = 0 then asset_of s v else asset_of s w)
     (if asset_amount w = 0 then 0 else asset_amount v) db db' \<Longrightarrow> Q db'"
  shows "on_ok (adjust_reward_balance db n v w) Q"
  unfolding adjust_reward_balance_def modify_reward_balance_def
  by (intro wp assms; rule moves_modify_account, assumption,
      auto simp: acc_funds_def asset_of_def acc_card_def acc_nonneg_def)

lemma wp_adjust_supply [wp]:
  assumes "\<And>db'. moves (\<lambda>s. - asset_of s delta) 0 db db' \<Longrightarrow> Q db'"
  shows "on_ok (adjust_supply db delta v) Q"
  unfolding adjust_supply_def Let_def
  by (intro wp assms moves_modify_gpo) (auto simp: funds_defs asset_of_def)

section \<open>Invariants of the objects that hold funds\<close>

definition fund_symbol :: "asset_symbol_type \<Rightarrow> bool" where
  "fund_symbol s \<longleftrightarrow> s = HIVE_SYMBOL \<or> s = HBD_SYMBOL"

text \<open>
  Releasing the last of an escrow removes it together with its fee, so releases conserve funds
  only because a fully approved escrow has no pending fee left.
\<close>

definition escrow_ok :: "escrow_object \<Rightarrow> bool" where
  "escrow_ok e \<longleftrightarrow> asset_symbol (escrow_hive_balance e) = HIVE_SYMBOL \<and> 0 \<le> asset_amount (escrow_hive_balance e)
     \<and> asset_symbol (escrow_hbd_balance e) = HBD_SYMBOL \<and> 0 \<le> asset_amount (escrow_hbd_balance e)
     \<and> fund_symbol (asset_symbol (pending_fee e)) \<and> 0 \<le> asset_amount (pending_fee e)
     \<and> (escrow_is_approved e \<longrightarrow> asset_amount (pending_fee e) = 0)"

definition savings_ok :: "savings_withdraw_object \<Rightarrow> bool" where
  "savings_ok w \<longleftrightarrow> fund_symbol (asset_symbol (sw_amount w)) \<and> 0 \<le> asset_amount (sw_amount w)"

definition order_value :: "limit_order_object \<Rightarrow> int" where
  "order_value o1 = for_sale o1 * asset_amount (quote (sell_price o1)) div asset_amount (base (sell_price o1))"

definition order_ok :: "limit_order_object \<Rightarrow> bool" where
  "order_ok o1 \<longleftrightarrow> 0 < for_sale o1 \<and> for_sale o1 \<le> int64_max \<and> price_ok (sell_price o1)
     \<and> fund_symbol (asset_symbol (base (sell_price o1))) \<and> fund_symbol (asset_symbol (quote (sell_price o1)))
     \<and> 0 < order_value o1 \<and> order_value o1 \<le> int64_max"

definition reward_fund_ok :: "reward_fund_object \<Rightarrow> bool" where
  "reward_fund_ok f \<longleftrightarrow> asset_symbol (reward_balance f) = HIVE_SYMBOL \<and> 0 \<le> asset_amount (reward_balance f)"

definition objects_ok :: "chain_db \<Rightarrow> bool" where
  "objects_ok db \<longleftrightarrow> list_all escrow_ok (escrows db) \<and> list_all savings_ok (savings_withdraws db)
     \<and> list_all order_ok (limit_orders db) \<and> list_all (\<lambda>r. 0 \<le> cr_amount r) (convert_requests db)
     \<and> list_all (\<lambda>r. 0 \<le> collateral_amount r \<and> 0 \<le> converted_amount r) (collateralized_convert_requests db)
     \<and> list_all reward_fund_ok (reward_funds db)
     \<and> distinct (map escrow_key (escrows db)) \<and> distinct (map savings_key (savings_withdraws db))
     \<and> distinct (map order_key (limit_orders db)) \<and> distinct (map convert_key (convert_requests db))
     \<and> distinct (map collateralized_key (collateralized_convert_requests db))"

lemma objects_ok_find:
  "objects_ok db \<Longrightarrow> e \<in> set (escrows db) \<Longrightarrow> tbl_find escrow_key (escrow_key e) (escrows db) = Some e"
  "objects_ok db \<Longrightarrow> w \<in> set (savings_withdraws db) \<Longrightarrow> tbl_find savings_key (savings_key w) (savings_withdraws db) = Some w"
  "objects_ok db \<Longrightarrow> o1 \<in> set (limit_orders db) \<Longrightarrow> tbl_find order_key (order_key o1) (limit_orders db) = Some o1"
  "objects_ok db \<Longrightarrow> r \<in> set (convert_requests db) \<Longrightarrow> tbl_find convert_key (convert_key r) (convert_requests db) = Some r"
  "objects_ok db \<Longrightarrow> cr \<in> set (collateralized_convert_requests db) \<Longrightarrow>
     tbl_find collateralized_key (collateralized_key cr) (collateralized_convert_requests db) = Some cr"
  unfolding objects_ok_def by (rule find_distinct; simp)+

lemma list_all_find: "list_all P xs \<Longrightarrow> tbl_find key k xs = Some x \<Longrightarrow> P x"
  using tbl_find_key [of key k xs x] by (simp add: list_all_iff)

lemma list_all_remove: "list_all P xs \<Longrightarrow> list_all P (tbl_remove key k xs)"
  using set_tbl_remove [of key k xs] by (auto simp: list_all_iff)

section \<open>Steps of the ledger\<close>

text \<open>
  The contract every evaluator is shown to meet when it returns: the gap between funds and
  supply is unchanged for every symbol, accounts stay non-negative (from hardfork 20 on), the
  objects keep their invariant, and the clock, the feed and the set of accounts are untouched.
\<close>

definition acc_ident :: "account_object \<Rightarrow> nat \<times> string" where
  "acc_ident a = (acc_id a, acc_name a)"

definition funds_step :: "chain_db \<Rightarrow> chain_db \<Rightarrow> bool" where
  "funds_step db db' \<longleftrightarrow> (\<forall>s. gap s db' = gap s db) \<and> pending_gap db' = pending_gap db
     \<and> (has_hardfork db 20 \<longrightarrow> accounts_nonneg db \<longrightarrow> accounts_nonneg db')
     \<and> map acc_ident (accounts db') = map acc_ident (accounts db)
     \<and> feed_history db' = feed_history db \<and> processed_hardforks db' = processed_hardforks db
     \<and> head_block_time db' = head_block_time db"

definition ledger_step :: "chain_db \<Rightarrow> chain_db \<Rightarrow> bool" where
  "ledger_step db db' \<longleftrightarrow> funds_step db db' \<and> objects_ok db'"

lemma funds_step_refl: "funds_step db db"
  by (simp add: funds_step_def)

lemma funds_step_trans: "funds_step a b \<Longrightarrow> funds_step b c \<Longrightarrow> funds_step a c"
  by (auto simp: funds_step_def has_hardfork_def)

lemma ledger_step_refl: "objects_ok db \<Longrightarrow> ledger_step db db"
  by (simp add: ledger_step_def funds_step_refl)

lemma ledger_step_trans: "ledger_step a b \<Longrightarrow> ledger_step b c \<Longrightarrow> ledger_step a c"
  by (auto simp: ledger_step_def intro: funds_step_trans)

lemma ledger_step_objects: "ledger_step a b \<Longrightarrow> objects_ok b"
  by (simp add: ledger_step_def)

lemma acc_card_ident: "map acc_card xs = map acc_card ys \<Longrightarrow> map acc_ident xs = map acc_ident ys"
proof -
  assume "map acc_card xs = map acc_card ys"
  then have "map (\<lambda>(i, n, _, _). (i, n)) (map acc_card xs) = map (\<lambda>(i, n, _, _). (i, n)) (map acc_card ys)" by simp
  then show ?thesis by (simp add: comp_def acc_card_def acc_ident_def [abs_def])
qed

lemma moves_objects_ok: "moves d p db db' \<Longrightarrow> objects_ok db' = objects_ok db"
  by (simp add: moves_def same_objects_def objects_ok_def)

text \<open>A movement of balances followed by the change of the object that carries the other side.\<close>

lemma moves_object_funds:
  assumes m: "moves d p db db1" and p: "p = 0"
    and g: "\<And>s. gap s db' = gap s db1 - d s" "pending_gap db' = pending_gap db1"
    and fr: "accounts db' = accounts db1" "feed_history db' = feed_history db1"
      "processed_hardforks db' = processed_hardforks db1" "head_block_time db' = head_block_time db1"
  shows "funds_step db db'"
  using assms acc_card_ident [of "accounts db1" "accounts db"]
  by (simp add: funds_step_def moves_def same_objects_def accounts_step_def accounts_nonneg_def)

lemma moves_object_step:
  assumes m: "moves d p db db1" and ok: "objects_ok db" and p: "p = 0"
    and g: "\<And>s. gap s db' = gap s db1 - d s" "pending_gap db' = pending_gap db1"
    and fr: "accounts db' = accounts db1" "feed_history db' = feed_history db1"
      "processed_hardforks db' = processed_hardforks db1" "head_block_time db' = head_block_time db1"
    and ok': "objects_ok db1 \<Longrightarrow> objects_ok db'"
  shows "ledger_step db db'"
  using moves_object_funds [OF m p g fr] ok' ok moves_objects_ok [OF m] by (simp add: ledger_step_def)

lemma moves_step:
  assumes "moves d p db db'" "\<And>s. d s = 0" "p = 0" "objects_ok db"
  shows "ledger_step db db'"
  using assms by (intro moves_object_step [OF assms(1)]) simp_all

text \<open>A step that moves the gap by \<open>d\<close>, for operations that change only one side of a trade.\<close>

definition ledger_shift :: "(asset_symbol_type \<Rightarrow> int) \<Rightarrow> chain_db \<Rightarrow> chain_db \<Rightarrow> bool" where
  "ledger_shift d db db' \<longleftrightarrow> (\<forall>s. gap s db' = gap s db + d s) \<and> pending_gap db' = pending_gap db
     \<and> (has_hardfork db 20 \<longrightarrow> accounts_nonneg db \<longrightarrow> accounts_nonneg db')
     \<and> map acc_ident (accounts db') = map acc_ident (accounts db)
     \<and> feed_history db' = feed_history db \<and> processed_hardforks db' = processed_hardforks db
     \<and> head_block_time db' = head_block_time db \<and> objects_ok db'"

lemma ledger_step_shift: "ledger_step db db' \<longleftrightarrow> ledger_shift (\<lambda>s. 0) db db'"
  by (auto simp: ledger_step_def funds_step_def ledger_shift_def)

lemma ledger_shift_trans:
  "ledger_shift d a b \<Longrightarrow> ledger_shift e b c \<Longrightarrow> (\<And>s. d s + e s = f s) \<Longrightarrow> ledger_shift f a c"
  by (auto simp: ledger_shift_def has_hardfork_def simp flip: add.assoc)

lemma moves_object_shift:
  assumes m: "moves d p db db1" and ok: "objects_ok db" and p: "p = 0"
    and g: "\<And>s. gap s db' = gap s db1 - d s + e s" "pending_gap db' = pending_gap db1"
    and fr: "accounts db' = accounts db1" "feed_history db' = feed_history db1"
      "processed_hardforks db' = processed_hardforks db1" "head_block_time db' = head_block_time db1"
    and ok': "objects_ok db1 \<Longrightarrow> objects_ok db'"
  shows "ledger_shift e db db'"
  using assms acc_card_ident [of "accounts db1" "accounts db"] moves_objects_ok [OF m]
  by (simp add: ledger_shift_def moves_def same_objects_def accounts_step_def accounts_nonneg_def)

text \<open>Updates of an account that touch neither funds nor identity.\<close>

lemma ledger_step_modify_account:
  assumes "ledger_step db db'"
    and "\<And>s a. acc_funds s (f a) = acc_funds s a" "\<And>a. reward_vesting_hive (f a) = reward_vesting_hive a"
      "\<And>a. acc_ident (f a) = acc_ident a" "\<And>a. acc_nonneg (f a) = acc_nonneg a"
  shows "ledger_step db (modify_account n f db')"
  using assms
  by (auto simp: ledger_step_def funds_step_def gap_modify_account_same pending_gap_modify_account_same accounts_nonneg_def
      map_modify_same objects_ok_def head_block_time_def intro!: list_all_modify)

end
