(* ===== verification/Account_Name.thy ===== *)
theory Account_Name
  imports Prelude
begin

text \<open>
  Account names: \<open>detail::check_account_name\<close> and \<open>is_valid_account_name\<close> of \<open>authority.cpp\<close> and
  \<open>validate_account_name\<close> of \<open>validation.hpp\<close>. The index pair \<open>begin\<close>, \<open>end\<close> of the source's loop is
  the suffix of the name that starts at \<open>begin\<close>. The main result is that the loop accepts
  exactly the dotted sequences of labels that the grammar in \<open>authority.hpp\<close> describes.
\<close>

datatype account_name_validity = Valid | Too_Short | Too_Long | Invalid_Sequence

definition HIVE_MIN_ACCOUNT_NAME_LENGTH :: nat where "HIVE_MIN_ACCOUNT_NAME_LENGTH = 3"
definition HIVE_MAX_ACCOUNT_NAME_LENGTH :: nat where "HIVE_MAX_ACCOUNT_NAME_LENGTH = 16"

definition name_letter :: "char \<Rightarrow> bool" where
  "name_letter c \<longleftrightarrow> c \<in> set ''abcdefghijklmnopqrstuvwxyz''"

definition name_letter_digit :: "char \<Rightarrow> bool" where
  "name_letter_digit c \<longleftrightarrow> c \<in> set ''abcdefghijklmnopqrstuvwxyz0123456789''"

definition name_letter_digit_hyphen :: "char \<Rightarrow> bool" where
  "name_letter_digit_hyphen c \<longleftrightarrow> c \<in> set ''abcdefghijklmnopqrstuvwxyz0123456789-''"

lemma dropWhile_shorter: "dropWhile P s = x # s' \<Longrightarrow> length s' < length s"
  by (metis Suc_le_eq length_Cons length_dropWhile_le)

function check_name_from :: "string \<Rightarrow> account_name_validity" where
  "check_name_from s =
     (let label = takeWhile (\<lambda>c. c \<noteq> CHR ''.'') s; rest = dropWhile (\<lambda>c. c \<noteq> CHR ''.'') s in
      if length label < 3 then Invalid_Sequence
      else if \<not> name_letter (label ! 0) then Invalid_Sequence
      else if \<not> name_letter_digit (label ! (length label - 1)) then Invalid_Sequence
      else if \<not> list_all name_letter_digit_hyphen (take (length label - 2) (drop 1 label)) then Invalid_Sequence
      else case rest of [] \<Rightarrow> Valid | _ # s' \<Rightarrow> check_name_from s')"
  by pat_completeness auto
termination
  by (relation "measure length") (auto dest!: dropWhile_shorter [OF sym])

declare check_name_from.simps [simp del]

definition check_account_name :: "string \<Rightarrow> account_name_validity" where
  "check_account_name name =
     (if length name < HIVE_MIN_ACCOUNT_NAME_LENGTH then Too_Short
      else if length name > HIVE_MAX_ACCOUNT_NAME_LENGTH then Too_Long
      else check_name_from name)"

definition is_valid_account_name :: "string \<Rightarrow> bool" where
  "is_valid_account_name name \<longleftrightarrow> check_account_name name = Valid"

definition validate_account_name :: "string \<Rightarrow> unit result" where
  "validate_account_name name =
     (case check_account_name name of
        Valid \<Rightarrow> Inr ()
      | Too_Short \<Rightarrow> Inl (Assert_Exception ''Account name is too short.'')
      | Too_Long \<Rightarrow> Inl (Assert_Exception ''Account name is too long.'')
      | Invalid_Sequence \<Rightarrow> Inl (Assert_Exception ''Account name is not valid. Please follow the RFC 1035 rules.''))"

section \<open>The grammar\<close>

inductive name_label :: "string \<Rightarrow> bool" where
  "name_letter a \<Longrightarrow> mid \<noteq> [] \<Longrightarrow> list_all name_letter_digit_hyphen mid \<Longrightarrow> name_letter_digit z \<Longrightarrow>
   name_label (a # mid @ [z])"

fun join_dots :: "string list \<Rightarrow> string" where
  "join_dots [] = []"
| "join_dots [l] = l"
| "join_dots (l # ls) = l @ CHR ''.'' # join_dots ls"

lemma name_chars_no_dot:
  "name_letter c \<Longrightarrow> c \<noteq> CHR ''.''" "name_letter_digit c \<Longrightarrow> c \<noteq> CHR ''.''" "name_letter_digit_hyphen c \<Longrightarrow> c \<noteq> CHR ''.''"
  by (auto simp: name_letter_def name_letter_digit_def name_letter_digit_hyphen_def)

lemma name_label_no_dot: "name_label l \<Longrightarrow> CHR ''.'' \<notin> set l"
  by (induction rule: name_label.induct) (auto simp: list_all_iff dest: name_chars_no_dot)

lemma name_label_iff:
  "name_label l \<longleftrightarrow> 3 \<le> length l \<and> name_letter (l ! 0) \<and> name_letter_digit (l ! (length l - 1))
     \<and> list_all name_letter_digit_hyphen (take (length l - 2) (drop 1 l))"
proof
  assume "name_label l"
  then show "3 \<le> length l \<and> name_letter (l ! 0) \<and> name_letter_digit (l ! (length l - 1))
     \<and> list_all name_letter_digit_hyphen (take (length l - 2) (drop 1 l))"
    by cases (auto simp: nth_append Suc_le_eq)
next
  assume r: "3 \<le> length l \<and> name_letter (l ! 0) \<and> name_letter_digit (l ! (length l - 1))
     \<and> list_all name_letter_digit_hyphen (take (length l - 2) (drop 1 l))"
  then obtain a t where l: "l = a # t" "2 \<le> length t" by (cases l) auto
  then have t: "t = butlast t @ [last t]" by (metis append_butlast_last_id list.size(3) not_numeral_le_zero)
  have "name_label (a # butlast t @ [last t])"
  proof (rule name_label.intros)
    show "butlast t \<noteq> []" using l by (cases t) auto
    show "list_all name_letter_digit_hyphen (butlast t)" using r l by (simp add: butlast_conv_take)
    have "l ! (length l - 1) = last t" using l by (cases t rule: rev_cases) (auto simp: nth_append)
    then show "name_letter_digit (last t)" using r by simp
  qed (use r l in auto)
  with l t show "name_label l" by simp
qed

lemma check_name_from_label:
  "check_name_from s = Valid \<longleftrightarrow> name_label (takeWhile (\<lambda>c. c \<noteq> CHR ''.'') s)
     \<and> (case dropWhile (\<lambda>c. c \<noteq> CHR ''.'') s of [] \<Rightarrow> True | _ # s' \<Rightarrow> check_name_from s' = Valid)"
proof -
  define l where "l = takeWhile (\<lambda>c. c \<noteq> CHR ''.'') s"
  define r where "r = dropWhile (\<lambda>c. c \<noteq> CHR ''.'') s"
  have "check_name_from s = (if \<not> name_label l then Invalid_Sequence else case r of [] \<Rightarrow> Valid | _ # s' \<Rightarrow> check_name_from s')"
    unfolding name_label_iff check_name_from.simps [of s] Let_def l_def [symmetric] r_def [symmetric]
    by (simp add: not_less)
  then show ?thesis by (simp add: l_def [symmetric] r_def [symmetric] split: list.splits)
qed

lemma check_name_from_join:
  "ls \<noteq> [] \<Longrightarrow> list_all name_label ls \<Longrightarrow> check_name_from (join_dots ls) = Valid"
proof (induction ls rule: join_dots.induct)
  case (2 l)
  then have "takeWhile (\<lambda>c. c \<noteq> CHR ''.'') l = l" "dropWhile (\<lambda>c. c \<noteq> CHR ''.'') l = []"
    using name_label_no_dot by (force simp: takeWhile_eq_all_conv dropWhile_eq_Nil_conv)+
  note e = this
  show ?case using 2 by (simp add: check_name_from_label [of l] e del: dropWhile_eq_Nil_conv takeWhile_eq_all_conv)
next
  case (3 l m ls)
  have nd: "c \<in> set l \<Longrightarrow> c \<noteq> CHR ''.''" for c using 3(3) name_label_no_dot [of l] by auto
  have e: "takeWhile (\<lambda>c. c \<noteq> CHR ''.'') (l @ CHR ''.'' # xs) = l"
    "dropWhile (\<lambda>c. c \<noteq> CHR ''.'') (l @ CHR ''.'' # xs) = CHR ''.'' # xs" for xs
    using nd by (simp_all add: takeWhile_append2 dropWhile_append2)
  show ?case using 3 by (simp add: check_name_from_label [of "l @ _"] e)
qed simp

lemma check_name_from_labels:
  "check_name_from s = Valid \<Longrightarrow> \<exists>ls. ls \<noteq> [] \<and> list_all name_label ls \<and> s = join_dots ls"
proof (induction s rule: length_induct)
  case (1 s)
  define l where "l = takeWhile (\<lambda>c. c \<noteq> CHR ''.'') s"
  have l: "name_label l" using 1(2) by (simp add: check_name_from_label [of s] l_def)
  have s: "s = l @ dropWhile (\<lambda>c. c \<noteq> CHR ''.'') s" by (simp add: l_def)
  show ?case
  proof (cases "dropWhile (\<lambda>c. c \<noteq> CHR ''.'') s")
    case Nil
    then have "s = l" using s by (metis append_Nil2)
    then show ?thesis using l by (intro exI [of _ "[l]"]) simp
  next
    case (Cons d s')
    then have d: "d = CHR ''.''" using hd_dropWhile [of "\<lambda>c. c \<noteq> CHR ''.''" s] by simp
    have "check_name_from s' = Valid" using 1(2) Cons by (simp add: check_name_from_label [of s])
    moreover have "length s' < length s" using Cons by (rule dropWhile_shorter)
    ultimately obtain ls where "ls \<noteq> []" "list_all name_label ls" "s' = join_dots ls" using 1(1) by blast
    then show ?thesis using l s Cons d by (intro exI [of _ "l # ls"]) (cases ls; simp)
  qed
qed

text \<open>
  Property C10. A name is accepted exactly when it has between 3 and 16 characters and is a
  sequence of one or more labels joined by dots, each a lowercase letter, then one or more
  letters, digits or hyphens, then a letter or digit; and \<open>validate_account_name\<close> throws on
  exactly the other names.
\<close>

theorem is_valid_account_name_grammar:
  "(is_valid_account_name name \<longleftrightarrow>
      3 \<le> length name \<and> length name \<le> 16
    \<and> (\<exists>ls. ls \<noteq> [] \<and> list_all name_label ls \<and> name = join_dots ls))
   \<and> (validate_account_name name = Inr () \<longleftrightarrow> is_valid_account_name name)"
proof -
  have "check_name_from name = Valid \<longleftrightarrow> (\<exists>ls. ls \<noteq> [] \<and> list_all name_label ls \<and> name = join_dots ls)"
    using check_name_from_labels [of name] check_name_from_join by blast
  then show ?thesis
    by (auto simp: is_valid_account_name_def validate_account_name_def check_account_name_def
        HIVE_MIN_ACCOUNT_NAME_LENGTH_def HIVE_MAX_ACCOUNT_NAME_LENGTH_def split: account_name_validity.splits)
qed

lemma wp_validate_account_name [wp]:
  "(is_valid_account_name name \<Longrightarrow> Q ()) \<Longrightarrow> on_ok (validate_account_name name) Q"
  by (auto intro!: on_okI simp: validate_account_name_def is_valid_account_name_def split: account_name_validity.splits)

end
