(* ===== verification/Transfers.thy ===== *)
theory Transfers
  imports Balances Account_Name "HOL-Library.Char_ord" "HOL-Library.List_Lexorder" "HOL-Library.Product_Lexorder"
begin

text \<open>
  Transfers, escrows and savings: the operation structs of \<open>hive_operations.hpp\<close>, their
  evaluators of \<open>hive_evaluator.cpp\<close>, and the two per-block loops of \<open>database.cpp\<close> that expire
  escrows and complete savings withdrawals. A reference to an object that the code keeps across
  a \<open>modify\<close> is looked up again by its key. The lemmas of the last section show that every one of
  these operations keeps the funds of each symbol in step with the supply counters.
\<close>

section \<open>Iterating an ordered index\<close>

definition tbl_begin :: "('a \<Rightarrow> 'k::linorder) \<Rightarrow> 'a list \<Rightarrow> 'a option" where
  "tbl_begin key xs = (case sort_key key xs of [] \<Rightarrow> None | x # _ \<Rightarrow> Some x)"

fun fold_result :: "('a \<Rightarrow> 's \<Rightarrow> 's result) \<Rightarrow> 'a list \<Rightarrow> 's \<Rightarrow> 's result" where
  "fold_result f [] s = Inr s"
| "fold_result f (x # xs) s = rbind (f x s) (fold_result f xs)"

lemma tbl_begin_set: "tbl_begin key xs = Some x \<Longrightarrow> x \<in> set xs"
proof -
  assume "tbl_begin key xs = Some x"
  then obtain ys where "sort_key key xs = x # ys" by (auto simp: tbl_begin_def split: list.splits)
  then have "x \<in> set (sort_key key xs)" by simp
  then show ?thesis by simp
qed

section \<open>Transfers\<close>

definition HIVE_MAX_PENDING_TRANSFERS :: int where "HIVE_MAX_PENDING_TRANSFERS = 255"
definition HIVE_SAVINGS_WITHDRAW_REQUEST_LIMIT :: int where "HIVE_SAVINGS_WITHDRAW_REQUEST_LIMIT = 100"
definition HIVE_SAVINGS_WITHDRAW_TIME :: int where "HIVE_SAVINGS_WITHDRAW_TIME = 3 * 24 * 60 * 60"
definition OBSOLETE_TREASURY_ACCOUNT :: string where "OBSOLETE_TREASURY_ACCOUNT = ''steem.dao''"
definition NEW_HIVE_TREASURY_ACCOUNT :: string where "NEW_HIVE_TREASURY_ACCOUNT = ''hive.fund''"

definition is_treasury :: "string \<Rightarrow> bool" where
  "is_treasury name \<longleftrightarrow> name = NEW_HIVE_TREASURY_ACCOUNT \<or> name = OBSOLETE_TREASURY_ACCOUNT"

record transfer_operation =
  tr_from :: string
  tr_to :: string
  tr_amount :: asset
  tr_memo :: string

definition transfer_apply :: "transfer_operation \<Rightarrow> chain_db \<Rightarrow> chain_db result" where
  "transfer_apply op db =
     (if has_hardfork db 24 \<and> asset_symbol (tr_amount op) = HIVE_SYMBOL \<and> is_treasury (tr_to op) then
        let median = current_median_history (feed_history db) in
        fc_assert (\<not> price_is_null median) ''Cannot send HIVE to treasury because there is no price feed.''
          (rbind (asset_mul_price (tr_amount op) median) (\<lambda>amount_to_transfer.
           rbind (asset_neg (tr_amount op)) (\<lambda>neg.
           rbind (adjust_balance db (tr_from op) neg) (\<lambda>db.
           rbind (adjust_balance db (tr_to op) amount_to_transfer) (\<lambda>db.
           rbind (adjust_supply db neg False) (\<lambda>db.
             if asset_amount amount_to_transfer > 0 then adjust_supply db amount_to_transfer False else Inr db))))))
      else
        fc_assert (has_hardfork db 21 \<longrightarrow> asset_symbol (tr_amount op) = HBD_SYMBOL \<or> \<not> is_treasury (tr_to op))
          ''Can only transfer HBD or HIVE to treasury''
          (rbind (asset_neg (tr_amount op)) (\<lambda>neg.
           rbind (adjust_balance db (tr_from op) neg) (\<lambda>db.
             adjust_balance db (tr_to op) (tr_amount op)))))"

section \<open>Escrow\<close>

record escrow_transfer_operation =
  et_from :: string
  et_to :: string
  et_agent :: string
  et_escrow_id :: int
  et_hbd_amount :: asset
  et_hive_amount :: asset
  et_fee :: asset
  et_ratification_deadline :: int
  et_escrow_expiration :: int

record escrow_approve_operation =
  ea_from :: string
  ea_to :: string
  ea_agent :: string
  ea_who :: string
  ea_escrow_id :: int
  ea_approve :: bool

record escrow_dispute_operation =
  ed_from :: string
  ed_to :: string
  ed_agent :: string
  ed_who :: string
  ed_escrow_id :: int

record escrow_release_operation =
  er_from :: string
  er_to :: string
  er_agent :: string
  er_who :: string
  er_receiver :: string
  er_escrow_id :: int
  er_hbd_amount :: asset
  er_hive_amount :: asset

definition modify_escrow :: "string \<times> int \<Rightarrow> (escrow_object \<Rightarrow> escrow_object) \<Rightarrow> chain_db \<Rightarrow> chain_db" where
  "modify_escrow k f db = db\<lparr>escrows := tbl_modify escrow_key k f (escrows db)\<rparr>"

definition remove_escrow :: "string \<times> int \<Rightarrow> chain_db \<Rightarrow> chain_db" where
  "remove_escrow k db = db\<lparr>escrows := tbl_remove escrow_key k (escrows db)\<rparr>"

definition dec_pending_escrow_transfers :: "string \<Rightarrow> chain_db \<Rightarrow> chain_db result" where
  "dec_pending_escrow_transfers name db =
     rbind (get_account db name) (\<lambda>_.
       Inr (modify_account name (\<lambda>a. a\<lparr>pending_escrow_transfers := cast_u16 (pending_escrow_transfers a - 1)\<rparr>) db))"

definition escrow_transfer_apply :: "escrow_transfer_operation \<Rightarrow> chain_db \<Rightarrow> chain_db result" where
  "escrow_transfer_apply op db =
     rbind (get_account db (et_from op)) (\<lambda>from_account.
     rbind (get_account db (et_to op)) (\<lambda>_.
     rbind (get_account db (et_agent op)) (\<lambda>_.
     fc_assert (et_ratification_deadline op > head_block_time db)
       ''The escrow ratification deadline must be after head block time.''
     (fc_assert (et_escrow_expiration op > head_block_time db)
       ''The escrow expiration must be after head block time.''
     (fc_assert (pending_escrow_transfers from_account < HIVE_MAX_PENDING_TRANSFERS)
       ''Account already has the maximum number of open escrow transfers.''
     (rbind (if asset_symbol (et_fee op) = HIVE_SYMBOL
             then rbind (asset_add (et_hive_amount op) (et_fee op)) (\<lambda>h. Inr (h, et_hbd_amount op))
             else rbind (asset_add (et_hbd_amount op) (et_fee op)) (\<lambda>d. Inr (et_hive_amount op, d)))
       (\<lambda>(hive_spent, hbd_spent).
      rbind (asset_neg hive_spent) (\<lambda>neg_hive.
      rbind (adjust_balance db (et_from op) neg_hive) (\<lambda>db.
      rbind (asset_neg hbd_spent) (\<lambda>neg_hbd.
      rbind (adjust_balance db (et_from op) neg_hbd) (\<lambda>db.
      rbind (tbl_emplace escrow_key
               \<lparr>escrow_id = et_escrow_id op, escrow_from = et_from op, escrow_to = et_to op, escrow_agent = et_agent op,
                ratification_deadline = et_ratification_deadline op, escrow_expiration = et_escrow_expiration op,
                escrow_hbd_balance = et_hbd_amount op, escrow_hive_balance = et_hive_amount op, pending_fee = et_fee op,
                to_approved = False, agent_approved = False, disputed = False\<rparr> (escrows db)) (\<lambda>es.
        Inr (modify_account (et_from op)
          (\<lambda>a. a\<lparr>pending_escrow_transfers := cast_u16 (pending_escrow_transfers a + 1)\<rparr>) (db\<lparr>escrows := es\<rparr>))))))))))))))"

definition refund_escrow :: "escrow_object \<Rightarrow> chain_db \<Rightarrow> chain_db result" where
  "refund_escrow e db =
     rbind (adjust_balance db (escrow_from e) (escrow_hive_balance e)) (\<lambda>db.
     rbind (adjust_balance db (escrow_from e) (escrow_hbd_balance e)) (\<lambda>db.
     rbind (adjust_balance db (escrow_from e) (pending_fee e)) (\<lambda>db.
     rbind (dec_pending_escrow_transfers (escrow_from e) db) (\<lambda>db.
       Inr (remove_escrow (escrow_key e) db)))))"

definition escrow_mark :: "bool \<Rightarrow> bool \<Rightarrow> bool \<Rightarrow> string \<Rightarrow> string \<times> int \<Rightarrow> (escrow_object \<Rightarrow> escrow_object) \<Rightarrow> chain_db \<Rightarrow> chain_db result" where
  "escrow_mark is_party already_approved reject_escrow msg k f db =
     (if is_party then
        fc_assert (\<not> already_approved) msg (Inr (if reject_escrow then db else modify_escrow k f db))
      else Inr db)"

definition escrow_settle :: "escrow_approve_operation \<Rightarrow> escrow_object \<Rightarrow> chain_db \<Rightarrow> chain_db result" where
  "escrow_settle op escrow db =
     (if \<not> ea_approve op then refund_escrow escrow db
      else if to_approved escrow \<and> agent_approved escrow then
        rbind (adjust_balance db (ea_agent op) (pending_fee escrow)) (\<lambda>db.
          Inr (modify_escrow (escrow_key escrow) (\<lambda>e. e\<lparr>pending_fee := pending_fee e\<lparr>asset_amount := 0\<rparr>\<rparr>) db))
      else Inr db)"

definition escrow_approve_apply :: "escrow_approve_operation \<Rightarrow> chain_db \<Rightarrow> chain_db result" where
  "escrow_approve_apply op db =
     (let k = (ea_from op, ea_escrow_id op); reject_escrow = (\<not> ea_approve op) in
      rbind (get_escrow db (ea_from op) (ea_escrow_id op)) (\<lambda>escrow.
      fc_assert (escrow_to escrow = ea_to op) ''Operation to does not match escrow to.''
      (fc_assert (escrow_agent escrow = ea_agent op) ''Operation agent does not match escrow agent.''
      (fc_assert (ratification_deadline escrow \<ge> head_block_time db)
        ''The escrow ratification deadline has passed. Escrow can no longer be ratified.''
      (rbind (escrow_mark (ea_who op = ea_to op) (to_approved escrow) reject_escrow
                ''Account to has already approved the escrow.'' k (\<lambda>e. e\<lparr>to_approved := True\<rparr>) db) (\<lambda>db.
       rbind (get_escrow db (ea_from op) (ea_escrow_id op)) (\<lambda>escrow.
       rbind (escrow_mark (ea_who op = ea_agent op) (agent_approved escrow) reject_escrow
                ''Account agent has already approved the escrow.'' k (\<lambda>e. e\<lparr>agent_approved := True\<rparr>) db) (\<lambda>db.
       rbind (get_escrow db (ea_from op) (ea_escrow_id op)) (\<lambda>escrow.
         escrow_settle op escrow db)))))))))"

definition escrow_dispute_apply :: "escrow_dispute_operation \<Rightarrow> chain_db \<Rightarrow> chain_db result" where
  "escrow_dispute_apply op db =
     rbind (get_account db (ed_from op)) (\<lambda>_.
     rbind (get_escrow db (ed_from op) (ed_escrow_id op)) (\<lambda>e.
     fc_assert (head_block_time db < escrow_expiration e) ''Disputing the escrow must happen before expiration.''
     (fc_assert (to_approved e \<and> agent_approved e)
        ''The escrow must be approved by all parties before a dispute can be raised.''
     (fc_assert (\<not> disputed e) ''The escrow is already under dispute.''
     (fc_assert (escrow_to e = ed_to op) ''Operation to does not match escrow to.''
     (fc_assert (escrow_agent e = ed_agent op) ''Operation agent does not match escrow agent.''
       (Inr (modify_escrow (ed_from op, ed_escrow_id op) (\<lambda>e. e\<lparr>disputed := True\<rparr>) db))))))))"

definition escrow_release_allowed :: "escrow_release_operation \<Rightarrow> escrow_object \<Rightarrow> int \<Rightarrow> unit result" where
  "escrow_release_allowed op e now =
     (if disputed e then
        fc_assert (er_who op = escrow_agent e) ''Only agent can release funds in a disputed escrow.'' (Inr ())
      else
        fc_assert (er_who op = escrow_from e \<or> er_who op = escrow_to e)
          ''Only from and to can release funds from a non-disputed escrow''
          (if escrow_expiration e > now then
             if er_who op = escrow_from e then
               fc_assert (er_receiver op = escrow_to e) ''Only from can release funds to to.'' (Inr ())
             else if er_who op = escrow_to e then
               fc_assert (er_receiver op = escrow_from e) ''Only to can release funds to from.'' (Inr ())
             else Inr ()
           else Inr ()))"

definition escrow_release_apply :: "escrow_release_operation \<Rightarrow> chain_db \<Rightarrow> chain_db result" where
  "escrow_release_apply op db =
     (let k = (er_from op, er_escrow_id op) in
      rbind (get_account db (er_from op)) (\<lambda>_.
      rbind (get_escrow db (er_from op) (er_escrow_id op)) (\<lambda>e.
      rbind (asset_leq (er_hive_amount op) (escrow_hive_balance e)) (\<lambda>hive_ok.
      fc_assert hive_ok ''Release amount exceeds escrow balance.''
      (rbind (asset_leq (er_hbd_amount op) (escrow_hbd_balance e)) (\<lambda>hbd_ok.
      fc_assert hbd_ok ''Release amount exceeds escrow balance.''
      (fc_assert (escrow_to e = er_to op) ''Operation to does not match escrow to.''
      (fc_assert (escrow_agent e = er_agent op) ''Operation agent does not match escrow agent.''
      (fc_assert (er_receiver op = escrow_from e \<or> er_receiver op = escrow_to e)
        ''Funds must be released to from or to''
      (fc_assert (to_approved e \<and> agent_approved e) ''Funds cannot be released prior to escrow approval.''
      (rbind (escrow_release_allowed op e (head_block_time db)) (\<lambda>_.
       rbind (adjust_balance db (er_receiver op) (er_hive_amount op)) (\<lambda>db.
       rbind (adjust_balance db (er_receiver op) (er_hbd_amount op)) (\<lambda>db.
       rbind (asset_sub (escrow_hive_balance e) (er_hive_amount op)) (\<lambda>hive_left.
       rbind (asset_sub (escrow_hbd_balance e) (er_hbd_amount op)) (\<lambda>hbd_left.
       let db = modify_escrow k (\<lambda>e. e\<lparr>escrow_hive_balance := hive_left, escrow_hbd_balance := hbd_left\<rparr>) db in
       if asset_amount hive_left = 0 \<and> asset_amount hbd_left = 0 then
         rbind (dec_pending_escrow_transfers (er_from op) db) (\<lambda>db. Inr (remove_escrow k db))
       else Inr db))))))))))))))))"

definition expire_escrow_ratification :: "chain_db \<Rightarrow> chain_db result" where
  "expire_escrow_ratification db =
     fold_result refund_escrow
       (sort_key ratification_deadline
          (filter (\<lambda>e. \<not> escrow_is_approved e \<and> ratification_deadline e \<le> head_block_time db) (escrows db))) db"

section \<open>Savings\<close>

record transfer_to_savings_operation =
  ts_from :: string
  ts_to :: string
  ts_amount :: asset
  ts_memo :: string

record transfer_from_savings_operation =
  tf_from :: string
  tf_request_id :: int
  tf_to :: string
  tf_amount :: asset
  tf_memo :: string

record cancel_transfer_from_savings_operation =
  cs_from :: string
  cs_request_id :: int

definition remove_savings_withdraw :: "string \<times> int \<Rightarrow> chain_db \<Rightarrow> chain_db" where
  "remove_savings_withdraw k db = db\<lparr>savings_withdraws := tbl_remove savings_key k (savings_withdraws db)\<rparr>"

definition dec_savings_withdraw_requests :: "string \<Rightarrow> chain_db \<Rightarrow> chain_db result" where
  "dec_savings_withdraw_requests name db =
     rbind (get_account db name) (\<lambda>_.
       Inr (modify_account name (\<lambda>a. a\<lparr>savings_withdraw_requests := cast_u8 (savings_withdraw_requests a - 1)\<rparr>) db))"

definition transfer_to_savings_apply :: "transfer_to_savings_operation \<Rightarrow> chain_db \<Rightarrow> chain_db result" where
  "transfer_to_savings_apply op db =
     rbind (get_account db (ts_from op)) (\<lambda>_.
     rbind (get_account db (ts_to op)) (\<lambda>_.
     fc_assert (has_hardfork db 21 \<longrightarrow> \<not> is_treasury (ts_to op)) ''Cannot transfer savings to treasury''
     (rbind (asset_neg (ts_amount op)) (\<lambda>neg.
      rbind (adjust_balance db (ts_from op) neg) (\<lambda>db.
        adjust_savings_balance db (ts_to op) (ts_amount op))))))"

definition transfer_from_savings_apply :: "transfer_from_savings_operation \<Rightarrow> chain_db \<Rightarrow> chain_db result" where
  "transfer_from_savings_apply op db =
     rbind (get_account db (tf_from op)) (\<lambda>from.
     rbind (get_account db (tf_to op)) (\<lambda>_.
     fc_assert (savings_withdraw_requests from < HIVE_SAVINGS_WITHDRAW_REQUEST_LIMIT)
       ''Account has reached limit for pending withdraw requests.''
     (fc_assert (has_hardfork db 21 \<longrightarrow> asset_symbol (tf_amount op) = HBD_SYMBOL \<or> \<not> is_treasury (tf_to op))
       ''Can only transfer HBD to treasury''
     (rbind (get_savings_balance from (asset_symbol (tf_amount op))) (\<lambda>available.
      rbind (asset_leq (tf_amount op) available) (\<lambda>enough.
      fc_assert enough ''get_savings_balance( from, op.amount.symbol ) >= op.amount''
      (rbind (asset_neg (tf_amount op)) (\<lambda>neg.
       rbind (adjust_savings_balance db (tf_from op) neg) (\<lambda>db.
       rbind (tbl_emplace savings_key
                \<lparr>sw_from = tf_from op, sw_to = tf_to op, sw_memo = tf_memo op, sw_request_id = tf_request_id op,
                 sw_amount = tf_amount op, sw_complete = cast_u32 (head_block_time db + HIVE_SAVINGS_WITHDRAW_TIME)\<rparr>
                (savings_withdraws db)) (\<lambda>ws.
         Inr (modify_account (tf_from op)
           (\<lambda>a. a\<lparr>savings_withdraw_requests := cast_u8 (savings_withdraw_requests a + 1)\<rparr>)
           (db\<lparr>savings_withdraws := ws\<rparr>))))))))))))"

definition cancel_transfer_from_savings_apply :: "cancel_transfer_from_savings_operation \<Rightarrow> chain_db \<Rightarrow> chain_db result" where
  "cancel_transfer_from_savings_apply op db =
     rbind (get_savings_withdraw db (cs_from op) (cs_request_id op)) (\<lambda>swo.
     rbind (adjust_savings_balance db (sw_from swo) (sw_amount swo)) (\<lambda>db.
       dec_savings_withdraw_requests (cs_from op) (remove_savings_withdraw (savings_key swo) db)))"

definition complete_savings_withdraw :: "savings_withdraw_object \<Rightarrow> chain_db \<Rightarrow> chain_db result" where
  "complete_savings_withdraw w db =
     rbind (adjust_balance db (sw_to w) (sw_amount w)) (\<lambda>db.
     rbind (dec_savings_withdraw_requests (sw_from w) db) (\<lambda>db.
       Inr (remove_savings_withdraw (savings_key w) db)))"

definition savings_order :: "savings_withdraw_object \<Rightarrow> int \<times> string \<times> int" where
  "savings_order w = (sw_complete w, sw_from w, sw_request_id w)"

lemma wp_dec_counters [wp]:
  "(\<And>a. tbl_find acc_name n (accounts db) = Some a \<Longrightarrow>
      Q (modify_account n (\<lambda>a. a\<lparr>pending_escrow_transfers := cast_u16 (pending_escrow_transfers a - 1)\<rparr>) db)) \<Longrightarrow>
   on_ok (dec_pending_escrow_transfers n db) Q"
  "(\<And>a. tbl_find acc_name n (accounts db) = Some a \<Longrightarrow>
      Q (modify_account n (\<lambda>a. a\<lparr>savings_withdraw_requests := cast_u8 (savings_withdraw_requests a - 1)\<rparr>) db)) \<Longrightarrow>
   on_ok (dec_savings_withdraw_requests n db) Q"
  unfolding dec_pending_escrow_transfers_def dec_savings_withdraw_requests_def by (intro wp; assumption)+

lemma complete_savings_withdraw_shrinks:
  assumes "complete_savings_withdraw w db = Inr db'" "w \<in> set (savings_withdraws db)"
  shows "length (savings_withdraws db') < length (savings_withdraws db)"
proof -
  have "tbl_find savings_key (savings_key w) (savings_withdraws db) \<noteq> None"
    using assms(2) by (auto simp: tbl_find_none)
  then have "on_ok (complete_savings_withdraw w db) (\<lambda>db'. length (savings_withdraws db') < length (savings_withdraws db))"
    unfolding complete_savings_withdraw_def
    by (intro wp) (auto simp: remove_savings_withdraw_def moves_def same_objects_def intro: length_tbl_remove)
  then show ?thesis using assms(1) by (rule on_okD)
qed

function process_savings_withdraws :: "chain_db \<Rightarrow> chain_db result" where
  "process_savings_withdraws db =
     (case tbl_begin savings_order (savings_withdraws db) of
        None \<Rightarrow> Inr db
      | Some w \<Rightarrow>
          if sw_complete w > head_block_time db then Inr db
          else rbind (complete_savings_withdraw w db) process_savings_withdraws)"
  by pat_completeness auto
termination
  by (relation "measure (\<lambda>db. length (savings_withdraws db))")
    (auto dest: tbl_begin_set complete_savings_withdraw_shrinks)

declare process_savings_withdraws.simps [simp del]

section \<open>Conservation of funds\<close>

lemma object_gaps:
  "tbl_find escrow_key k (escrows db) = Some e \<Longrightarrow>
     gap s (modify_escrow k f db) = gap s db + escrow_funds s (f e) - escrow_funds s e"
  "tbl_find escrow_key k (escrows db) = Some e \<Longrightarrow> gap s (remove_escrow k db) = gap s db - escrow_funds s e"
  "tbl_find savings_key j (savings_withdraws db) = Some w \<Longrightarrow>
     gap s (remove_savings_withdraw j db) = gap s db - asset_of s (sw_amount w)"
  "gap s (db\<lparr>escrows := escrows db @ [e]\<rparr>) = gap s db + escrow_funds s e"
  "gap s (db\<lparr>savings_withdraws := savings_withdraws db @ [w]\<rparr>) = gap s db + asset_of s (sw_amount w)"
  by (simp_all add: gap_def object_funds_def modify_escrow_def remove_escrow_def remove_savings_withdraw_def
      total_modify total_remove)

lemma object_frames [simp]:
  "pending_gap (modify_escrow k f db) = pending_gap db" "pending_gap (remove_escrow k db) = pending_gap db"
  "pending_gap (remove_savings_withdraw j db) = pending_gap db" "pending_gap (db\<lparr>escrows := es\<rparr>) = pending_gap db"
  "pending_gap (db\<lparr>savings_withdraws := ws\<rparr>) = pending_gap db"
  "accounts (modify_escrow k f db) = accounts db" "accounts (remove_escrow k db) = accounts db"
  "accounts (remove_savings_withdraw j db) = accounts db"
  "head_block_time (modify_escrow k f db) = head_block_time db" "head_block_time (remove_escrow k db) = head_block_time db"
  "head_block_time (remove_savings_withdraw j db) = head_block_time db"
  "head_block_time (db\<lparr>escrows := es\<rparr>) = head_block_time db" "head_block_time (db\<lparr>savings_withdraws := ws\<rparr>) = head_block_time db"
  "feed_history (modify_escrow k f db) = feed_history db" "feed_history (remove_escrow k db) = feed_history db"
  "feed_history (remove_savings_withdraw j db) = feed_history db"
  "processed_hardforks (modify_escrow k f db) = processed_hardforks db" "processed_hardforks (remove_escrow k db) = processed_hardforks db"
  "processed_hardforks (remove_savings_withdraw j db) = processed_hardforks db"
  by (simp_all add: pending_gap_def modify_escrow_def remove_escrow_def remove_savings_withdraw_def head_block_time_def)

lemma moves_find:
  "moves d p db db' \<Longrightarrow> tbl_find escrow_key k (escrows db') = tbl_find escrow_key k (escrows db)"
  "moves d p db db' \<Longrightarrow> tbl_find savings_key k (savings_withdraws db') = tbl_find savings_key k (savings_withdraws db)"
  by (simp_all add: moves_def same_objects_def)

lemmas escrow_object_defs = modify_escrow_def remove_escrow_def remove_savings_withdraw_def

lemma modify_account_outside:
  "remove_escrow k (modify_account n g db) = modify_account n g (remove_escrow k db)"
  "remove_savings_withdraw k (modify_account n g db) = modify_account n g (remove_savings_withdraw k db)"
  by (simp_all add: modify_account_def escrow_object_defs)

lemma counters_step:
  "ledger_step db db' \<Longrightarrow> ledger_step db (modify_account n (\<lambda>a. a\<lparr>pending_escrow_transfers := c a\<rparr>) db')"
  "ledger_step db db' \<Longrightarrow> ledger_step db (modify_account n (\<lambda>a. a\<lparr>savings_withdraw_requests := c a\<rparr>) db')"
  by (erule ledger_step_modify_account; simp add: acc_funds_def acc_ident_def acc_nonneg_def)+

lemma objects_ok_changes:
  "objects_ok db \<Longrightarrow> objects_ok (remove_escrow k db)"
  "objects_ok db \<Longrightarrow> objects_ok (remove_savings_withdraw j db)"
  "objects_ok db \<Longrightarrow> tbl_find escrow_key (escrow_key e) (escrows db) = None \<Longrightarrow>
     objects_ok (db\<lparr>escrows := escrows db @ [e]\<rparr>) \<longleftrightarrow> escrow_ok e"
  "objects_ok db \<Longrightarrow> tbl_find savings_key (savings_key w) (savings_withdraws db) = None \<Longrightarrow>
     objects_ok (db\<lparr>savings_withdraws := savings_withdraws db @ [w]\<rparr>) \<longleftrightarrow> savings_ok w"
  "objects_ok db \<Longrightarrow> (\<And>e. tbl_find escrow_key k (escrows db) = Some e \<Longrightarrow> escrow_ok e \<Longrightarrow> escrow_ok (f e)) \<Longrightarrow>
     (\<And>e. escrow_key (f e) = escrow_key e) \<Longrightarrow> objects_ok (modify_escrow k f db)"
  using distinct_modify [of escrow_key f k "escrows db"]
  by (simp_all add: objects_ok_def escrow_object_defs list_all_remove list_all_modify distinct_remove tbl_find_none image_iff)

lemma refund_escrow_step:
  assumes e: "tbl_find escrow_key (escrow_key e) (escrows db) = Some e" and ok: "objects_ok db"
  shows "on_ok (refund_escrow e db) (\<lambda>db'. ledger_step db db' \<and> escrows db' = tbl_remove escrow_key (escrow_key e) (escrows db))"
  unfolding refund_escrow_def
proof (intro wp, goal_cases)
  case (1 db1 db2 db3 a)
  note m = moves_trans [OF moves_trans [OF 1(1,2)] 1(3)]
  have "ledger_step db (remove_escrow (escrow_key e) db3)"
    using m ok by (rule moves_object_step)
      (use e in \<open>simp_all add: object_gaps moves_find [OF m] escrow_funds_def objects_ok_changes\<close>)
  moreover have "escrows db3 = escrows db" using m by (simp add: moves_def same_objects_def)
  ultimately show ?case by (simp add: modify_account_outside counters_step) (simp add: remove_escrow_def)
qed

lemma transfer_step:
  assumes ok: "objects_ok db"
    and conv: "\<And>x. asset_mul_price (tr_amount op) (current_median_history (feed_history db)) = Inr x \<Longrightarrow> 0 \<le> asset_amount x"
  shows "on_ok (transfer_apply op db) (ledger_step db)"
  unfolding transfer_apply_def Let_def
proof (intro wp, goal_cases)
  case (2 x neg db1 db2 db3)
  have "asset_of s x = 0" for s using conv [OF 2(3)] 2 by (simp add: asset_of_def)
  then show ?case using 2(4-) by - ((drule (1) moves_trans)+, erule moves_step, simp_all add: ok)
qed ((drule (1) moves_trans)+, erule moves_step, simp_all add: ok)+

lemma escrow_transfer_step:
  assumes ok: "objects_ok db"
    and v: "asset_symbol (et_hbd_amount op) = HBD_SYMBOL" "asset_symbol (et_hive_amount op) = HIVE_SYMBOL"
      "fund_symbol (asset_symbol (et_fee op))" "0 \<le> asset_amount (et_hbd_amount op)" "0 \<le> asset_amount (et_hive_amount op)"
      "0 \<le> asset_amount (et_fee op)"
  shows "on_ok (escrow_transfer_apply op db) (ledger_step db)"
  unfolding escrow_transfer_apply_def
  by (intro wp counters_step; (drule (1) moves_trans)+, erule moves_object_step,
      use v ok in \<open>auto simp: object_gaps objects_ok_changes escrow_funds_def escrow_ok_def escrow_is_approved_def\<close>)

lemma modify_escrow_funds:
  "(\<And>s e. escrow_funds s (f e) = escrow_funds s e) \<Longrightarrow> funds_step db (modify_escrow k f db)"
  by (simp add: funds_step_def accounts_nonneg_def)
    (simp add: gap_def object_funds_def modify_escrow_def total_modify_same)

lemma tbl_modify_id [simp]: "tbl_modify key k (\<lambda>x. x) xs = xs"
  by (induction xs) auto

lemma escrow_mark_to:
  "escrow_mark p a r msg k (\<lambda>e. e\<lparr>to_approved := True\<rparr>) db = Inr db' \<Longrightarrow>
   db' = modify_escrow k (\<lambda>e. e\<lparr>to_approved := (p \<and> \<not> r) \<or> to_approved e\<rparr>) db"
  by (cases "p \<and> \<not> r") (auto simp: escrow_mark_def result_simps modify_escrow_def split: if_splits)

lemma escrow_mark_agent:
  "escrow_mark p a r msg k (\<lambda>e. e\<lparr>agent_approved := True\<rparr>) db = Inr db' \<Longrightarrow>
   db' = modify_escrow k (\<lambda>e. e\<lparr>agent_approved := (p \<and> \<not> r) \<or> agent_approved e\<rparr>) db"
  by (cases "p \<and> \<not> r") (auto simp: escrow_mark_def result_simps modify_escrow_def split: if_splits)

lemma modify_escrow_twice:
  "(\<And>e. escrow_key (f e) = escrow_key e) \<Longrightarrow> modify_escrow k g (modify_escrow k f db) = modify_escrow k (\<lambda>e. g (f e)) db"
proof -
  assume f: "\<And>e. escrow_key (f e) = escrow_key e"
  have "tbl_modify escrow_key k g (tbl_modify escrow_key k f xs) = tbl_modify escrow_key k (\<lambda>e. g (f e)) xs" for xs
    by (induction xs) (auto simp: f)
  then show ?thesis by (simp add: modify_escrow_def)
qed

lemma wp_escrow_mark [wp]:
  "(\<And>db'. db' = modify_escrow k (\<lambda>e. e\<lparr>to_approved := (p \<and> \<not> r) \<or> to_approved e\<rparr>) db \<Longrightarrow> Q db') \<Longrightarrow>
   on_ok (escrow_mark p a r msg k (\<lambda>e. e\<lparr>to_approved := True\<rparr>) db) Q"
  "(\<And>db'. db' = modify_escrow k (\<lambda>e. e\<lparr>agent_approved := (p \<and> \<not> r) \<or> agent_approved e\<rparr>) db \<Longrightarrow> Q db') \<Longrightarrow>
   on_ok (escrow_mark p a r msg k (\<lambda>e. e\<lparr>agent_approved := True\<rparr>) db) Q"
  by (rule on_okI, drule escrow_mark_to escrow_mark_agent, simp)+

lemma find_modify_escrow:
  "(\<And>e. escrow_key (f e) = escrow_key e) \<Longrightarrow>
   tbl_find escrow_key k (escrows (modify_escrow k f db)) = map_option f (tbl_find escrow_key k (escrows db))"
  by (simp add: modify_escrow_def tbl_find_modify)

lemma escrow_approve_step:
  assumes ok: "objects_ok db"
  shows "on_ok (escrow_approve_apply op db) (ledger_step db)"
proof -
  define k where "k = (ea_from op, ea_escrow_id op)"
  define mark :: "bool \<Rightarrow> bool \<Rightarrow> escrow_object \<Rightarrow> escrow_object"
    where "mark A B e = e\<lparr>to_approved := A \<or> to_approved e, agent_approved := B \<or> agent_approved e\<rparr>" for A B e
  have keys: "escrow_key (mark A B e) = escrow_key e" "\<And>s. escrow_funds s (mark A B e) = escrow_funds s e"
    "pending_fee (mark A B e) = pending_fee e" for A B e
    by (simp_all add: mark_def escrow_funds_def)
  have settle: "on_ok (escrow_settle op (mark A B e) (modify_escrow k (mark A B) db)) (ledger_step db)"
    if e: "tbl_find escrow_key k (escrows db) = Some e" and AB: "\<not> ea_approve op \<Longrightarrow> \<not> A \<and> \<not> B" for A B e
    unfolding escrow_settle_def
  proof (intro wp, goal_cases)
    case 1
    then have "mark A B = (\<lambda>e. e)" using AB by (auto simp: mark_def)
    moreover have "on_ok (refund_escrow e db) (ledger_step db)"
      using refund_escrow_step [of e db] tbl_find_key [OF e] e ok by (auto intro: on_ok_mono)
    ultimately show ?case by (simp add: modify_escrow_def)
  next
    case (2 db')
    let ?fee0 = "\<lambda>e. e\<lparr>pending_fee := pending_fee e\<lparr>asset_amount := 0\<rparr>\<rparr>"
    have k: "escrow_key (mark A B e) = k" using tbl_find_key [OF e] by (simp add: keys)
    have "tbl_find escrow_key k (escrows db') = Some (mark A B e)"
      using e by (simp add: moves_find [OF 2(3)] find_modify_escrow keys)
    then have "funds_step (modify_escrow k (mark A B) db) (modify_escrow k ?fee0 db')"
      by (intro moves_object_funds [OF 2(3)]) (simp_all add: object_gaps escrow_funds_def asset_of_def)
    moreover have "objects_ok (modify_escrow k ?fee0 (modify_escrow k (mark A B) db))"
      unfolding modify_escrow_twice [OF keys(1)]
      by (rule objects_ok_changes [OF ok]) (auto simp: escrow_ok_def mark_def escrow_is_approved_def)
    then have "objects_ok (modify_escrow k ?fee0 db')"
      using 2(3) by (simp add: moves_def same_objects_def objects_ok_def modify_escrow_def)
    ultimately show ?case
      using funds_step_trans [OF modify_escrow_funds [of "mark A B", OF keys(2)]] by (simp add: ledger_step_def k)
  next
    case 3
    then have "escrow_ok (mark A B e)" if "escrow_ok e"
      using that by (auto simp: escrow_ok_def mark_def escrow_is_approved_def)
    then show ?case
      using e unfolding ledger_step_def
      by (intro conjI modify_escrow_funds keys objects_ok_changes(5) [OF ok]) simp_all
  qed
  show ?thesis
    unfolding escrow_approve_apply_def Let_def k_def [symmetric]
  proof (intro wp, goal_cases)
    case (1 e0 db1 e1 db2 e2)
    obtain e where e: "tbl_find escrow_key k (escrows db) = Some e"
      using 1(1) by (simp add: k_def)
    have db2: "db2 = modify_escrow k (mark (ea_who op = ea_to op \<and> ea_approve op) (ea_who op = ea_agent op \<and> ea_approve op)) db"
      using 1 by (simp add: modify_escrow_twice mark_def [abs_def])
    moreover have "e2 = mark (ea_who op = ea_to op \<and> ea_approve op) (ea_who op = ea_agent op \<and> ea_approve op) e"
    proof -
      have "tbl_find escrow_key k (escrows db2) = Some e2" using 1 by (simp add: k_def)
      then show ?thesis using e by (simp add: db2 find_modify_escrow keys)
    qed
    ultimately show ?case using settle [OF e] by simp
  qed
qed

lemma escrow_dispute_step: "objects_ok db \<Longrightarrow> on_ok (escrow_dispute_apply op db) (ledger_step db)"
  unfolding escrow_dispute_apply_def
  by (intro wp) (auto simp: ledger_step_def escrow_funds_def escrow_ok_def escrow_is_approved_def
      intro!: modify_escrow_funds objects_ok_changes(5))

lemma wp_escrow_release_allowed [wp]:
  "(escrow_release_allowed op e now = Inr () \<Longrightarrow> Q ()) \<Longrightarrow> on_ok (escrow_release_allowed op e now) Q"
  by (rule on_okI) simp

lemma remove_modified_escrow:
  "remove_escrow k (modify_escrow k (\<lambda>e. e\<lparr>escrow_hive_balance := h, escrow_hbd_balance := d\<rparr>) db) = remove_escrow k db"
proof -
  have "tbl_remove escrow_key k (tbl_modify escrow_key k (\<lambda>e. e\<lparr>escrow_hive_balance := h, escrow_hbd_balance := d\<rparr>) xs) = tbl_remove escrow_key k xs" for xs
    by (induction xs) auto
  then show ?thesis by (simp add: escrow_object_defs)
qed

lemma escrow_release_step:
  assumes ok: "objects_ok db" and v: "0 \<le> asset_amount (er_hbd_amount op)" "0 \<le> asset_amount (er_hive_amount op)"
  shows "on_ok (escrow_release_apply op db) (ledger_step db)"
  unfolding escrow_release_apply_def Let_def
proof (intro wp, goal_cases)
  case (1 a e db1 db2 c d a')
  have e: "escrow_ok e" "escrow_is_approved e" using ok 1 by (auto simp: objects_ok_def escrow_is_approved_def dest: list_all_find)
  have zero: "asset_of s c = 0" "asset_of s d = 0" "asset_of s (pending_fee e) = 0" for s
    using 1 e by (simp_all add: asset_of_def escrow_ok_def)
  note m = moves_trans [OF 1(12,13)]
  have "ledger_step db (remove_escrow (er_from op, er_escrow_id op) db2)"
    using m ok
    by (rule moves_object_step) (use 1 zero in \<open>simp_all add: object_gaps moves_find [OF m] objects_ok_changes escrow_funds_def\<close>)
  then show ?case by (simp add: modify_account_outside counters_step remove_modified_escrow)
next
  case (2 a e db1 db2 c d)
  have e: "escrow_ok e" using ok 2 by (auto simp: objects_ok_def dest: list_all_find)
  note m = moves_trans [OF 2(12,13)]
  show ?case using m ok
    by (rule moves_object_step)
      (use 2 v e in \<open>auto simp: object_gaps moves_find [OF m] escrow_funds_def escrow_ok_def escrow_is_approved_def intro!: objects_ok_changes(5)\<close>)
qed

lemma wp_get_savings_balance [wp]:
  "(\<And>b. get_savings_balance a s = Inr b \<Longrightarrow> Q b) \<Longrightarrow> on_ok (get_savings_balance a s) Q"
  by (rule on_okI)

lemma transfer_to_savings_step: "objects_ok db \<Longrightarrow> on_ok (transfer_to_savings_apply op db) (ledger_step db)"
  unfolding transfer_to_savings_apply_def
  by (intro wp) ((drule (1) moves_trans)+, erule moves_step, simp_all)

lemma transfer_from_savings_step:
  assumes ok: "objects_ok db" and v: "0 < asset_amount (tf_amount op)" "fund_symbol (asset_symbol (tf_amount op))"
  shows "on_ok (transfer_from_savings_apply op db) (ledger_step db)"
  unfolding transfer_from_savings_apply_def
  by (intro wp counters_step; erule moves_object_step,
      use v ok in \<open>auto simp: object_gaps objects_ok_changes savings_ok_def\<close>)

lemma cancel_transfer_from_savings_step: "objects_ok db \<Longrightarrow> on_ok (cancel_transfer_from_savings_apply op db) (ledger_step db)"
  unfolding cancel_transfer_from_savings_apply_def
proof (intro wp counters_step, goal_cases)
  case (1 w db1 a)
  then have "savings_key w = (cs_from op, cs_request_id op)" by (simp add: tbl_find_key [OF 1(2)])
  with 1 show ?case
    by (intro moves_object_step [OF 1(3)]) (simp_all add: object_gaps objects_ok_changes moves_find)
qed

lemma complete_savings_withdraw_step:
  assumes "objects_ok db" "w \<in> set (savings_withdraws db)"
  shows "on_ok (complete_savings_withdraw w db) (ledger_step db)"
proof -
  have "tbl_find savings_key (savings_key w) (savings_withdraws db) = Some w"
    using assms by (rule objects_ok_find)
  then show ?thesis
    unfolding complete_savings_withdraw_def modify_account_outside
  proof (intro wp, goal_cases)
    case (1 db1 a)
    then have "ledger_step db (remove_savings_withdraw (savings_key w) db1)"
      using assms(1) by (intro moves_object_step [OF 1(2)]) (simp_all add: object_gaps objects_ok_changes moves_find)
    then show ?case by (simp add: modify_account_outside counters_step)
  qed
qed

lemma process_savings_withdraws_step: "objects_ok db \<Longrightarrow> on_ok (process_savings_withdraws db) (ledger_step db)"
proof (induction db rule: process_savings_withdraws.induct)
  case (1 db)
  note IH = 1(1) and \<open>objects_ok db\<close>
  show ?case
  proof (subst process_savings_withdraws.simps, intro wp ledger_step_refl \<open>objects_ok db\<close>, goal_cases)
    case (1 w)
    note w = this
    have "on_ok (complete_savings_withdraw w db) (ledger_step db)"
      using 1(1) \<open>objects_ok db\<close> by (intro complete_savings_withdraw_step tbl_begin_set)
    then show ?case
      using IH [OF w] by (auto simp: on_ok_def) (metis ledger_step_objects ledger_step_trans)
  qed
qed

lemma refund_escrows_step:
  "objects_ok db \<Longrightarrow> distinct (map escrow_key es) \<Longrightarrow>
   (\<And>e. e \<in> set es \<Longrightarrow> tbl_find escrow_key (escrow_key e) (escrows db) = Some e) \<Longrightarrow>
   on_ok (fold_result refund_escrow es db) (ledger_step db)"
proof (induction es arbitrary: db)
  case (Cons e es)
  have "on_ok (fold_result refund_escrow es db') (ledger_step db)"
    if "ledger_step db db'" "escrows db' = tbl_remove escrow_key (escrow_key e) (escrows db)" for db'
  proof (rule on_ok_mono [OF Cons.IH])
    show "tbl_find escrow_key (escrow_key e') (escrows db') = Some e'" if "e' \<in> set es" for e'
    proof -
      have "escrow_key e' \<in> escrow_key ` set es" using that by (rule imageI)
      moreover have "escrow_key e \<notin> escrow_key ` set es" using Cons.prems(2) by simp
      ultimately have "escrow_key e' \<noteq> escrow_key e" by metis
      then show ?thesis using that Cons.prems(3) [of e'] \<open>escrows db' = _\<close> by (simp add: tbl_find_remove_other)
    qed
  qed (use that Cons.prems in \<open>auto dest: ledger_step_objects intro: ledger_step_trans\<close>)
  then show ?case
    using refund_escrow_step [of e db] Cons.prems by (auto intro!: wp elim!: on_ok_mono)
qed (simp add: wp_Inr ledger_step_refl)

lemma expire_escrow_ratification_step: "objects_ok db \<Longrightarrow> on_ok (expire_escrow_ratification db) (ledger_step db)"
  unfolding expire_escrow_ratification_def
  by (rule refund_escrows_step)
    (auto simp: objects_ok_find, auto simp: objects_ok_def distinct_map distinct_sort intro: inj_on_subset)

section \<open>Validation of the operations\<close>

text \<open>
  The \<open>validate\<close> methods of the operations. \<open>is_utf8\<close> and \<open>json_ok\<close> stand for \<open>fc::is_utf8\<close> and
  \<open>validate_json_with_fallback\<close>, which call the bundled text libraries.
\<close>

definition HIVE_MAX_MEMO_SIZE :: nat where "HIVE_MAX_MEMO_SIZE = 2048"

definition transfer_validate :: "(string \<Rightarrow> bool) \<Rightarrow> transfer_operation \<Rightarrow> unit result" where
  "transfer_validate is_utf8 op =
     rbind (validate_account_name (tr_from op)) (\<lambda>_.
     rbind (validate_account_name (tr_to op)) (\<lambda>_.
     rbind (is_vesting (asset_symbol (tr_amount op))) (\<lambda>v.
     fc_assert (v = False) ''Transfer of vesting is not allowed.''
     (fc_assert (asset_amount (tr_amount op) > 0) ''Cannot transfer a negative amount (aka: stealing)''
     (fc_assert (length (tr_memo op) < HIVE_MAX_MEMO_SIZE) ''Memo is too large''
     (fc_assert (is_utf8 (tr_memo op)) ''Memo is not UTF8'' (Inr ())))))))"

definition escrow_transfer_validate :: "(string \<Rightarrow> bool) \<Rightarrow> string \<Rightarrow> escrow_transfer_operation \<Rightarrow> unit result" where
  "escrow_transfer_validate json_ok json_meta op =
     rbind (validate_account_name (et_from op)) (\<lambda>_.
     rbind (validate_account_name (et_to op)) (\<lambda>_.
     rbind (validate_account_name (et_agent op)) (\<lambda>_.
     fc_assert (asset_amount (et_fee op) \<ge> 0) ''fee cannot be negative''
     (fc_assert (asset_amount (et_hbd_amount op) \<ge> 0) ''HBD amount cannot be negative''
     (fc_assert (asset_amount (et_hive_amount op) \<ge> 0) ''HIVE amount cannot be negative''
     (fc_assert (asset_amount (et_hbd_amount op) > 0 \<or> asset_amount (et_hive_amount op) > 0)
        ''escrow must transfer a non-zero amount''
     (fc_assert (et_from op \<noteq> et_agent op \<and> et_to op \<noteq> et_agent op) ''agent must be a third party''
     (fc_assert (asset_symbol (et_fee op) = HIVE_SYMBOL \<or> asset_symbol (et_fee op) = HBD_SYMBOL) ''fee must be HIVE or HBD''
     (fc_assert (asset_symbol (et_hbd_amount op) = HBD_SYMBOL) ''HBD amount must contain HBD asset''
     (fc_assert (asset_symbol (et_hive_amount op) = HIVE_SYMBOL) ''HIVE amount must contain HIVE asset''
     (fc_assert (et_ratification_deadline op < et_escrow_expiration op)
        ''ratification deadline must be before escrow expiration''
     (fc_assert (json_meta = [] \<or> json_ok json_meta) ''JSON is not valid JSON'' (Inr ())))))))))))))"

definition escrow_approve_validate :: "escrow_approve_operation \<Rightarrow> unit result" where
  "escrow_approve_validate op =
     rbind (validate_account_name (ea_from op)) (\<lambda>_.
     rbind (validate_account_name (ea_to op)) (\<lambda>_.
     rbind (validate_account_name (ea_agent op)) (\<lambda>_.
     rbind (validate_account_name (ea_who op)) (\<lambda>_.
     fc_assert (ea_who op = ea_to op \<or> ea_who op = ea_agent op) ''to or agent must approve escrow'' (Inr ())))))"

definition escrow_dispute_validate :: "escrow_dispute_operation \<Rightarrow> unit result" where
  "escrow_dispute_validate op =
     rbind (validate_account_name (ed_from op)) (\<lambda>_.
     rbind (validate_account_name (ed_to op)) (\<lambda>_.
     rbind (validate_account_name (ed_agent op)) (\<lambda>_.
     rbind (validate_account_name (ed_who op)) (\<lambda>_.
     fc_assert (ed_who op = ed_from op \<or> ed_who op = ed_to op) ''who must be from or to'' (Inr ())))))"

definition escrow_release_validate :: "escrow_release_operation \<Rightarrow> unit result" where
  "escrow_release_validate op =
     rbind (validate_account_name (er_from op)) (\<lambda>_.
     rbind (validate_account_name (er_to op)) (\<lambda>_.
     rbind (validate_account_name (er_agent op)) (\<lambda>_.
     rbind (validate_account_name (er_who op)) (\<lambda>_.
     rbind (validate_account_name (er_receiver op)) (\<lambda>_.
     fc_assert (er_who op = er_from op \<or> er_who op = er_to op \<or> er_who op = er_agent op) ''who must be from or to or agent''
     (fc_assert (er_receiver op = er_from op \<or> er_receiver op = er_to op) ''receiver must be from or to''
     (fc_assert (asset_amount (er_hbd_amount op) \<ge> 0) ''HBD amount cannot be negative''
     (fc_assert (asset_amount (er_hive_amount op) \<ge> 0) ''HIVE amount cannot be negative''
     (fc_assert (asset_amount (er_hbd_amount op) > 0 \<or> asset_amount (er_hive_amount op) > 0)
        ''escrow must release a non-zero amount''
     (fc_assert (asset_symbol (er_hbd_amount op) = HBD_SYMBOL) ''HBD amount must contain HBD asset''
     (fc_assert (asset_symbol (er_hive_amount op) = HIVE_SYMBOL) ''HIVE amount must contain HIVE asset'' (Inr ()))))))))))))"

definition savings_amount_validate :: "(string \<Rightarrow> bool) \<Rightarrow> string \<Rightarrow> string \<Rightarrow> asset \<Rightarrow> string \<Rightarrow> unit result" where
  "savings_amount_validate is_utf8 from to amount memo =
     rbind (validate_account_name from) (\<lambda>_.
     rbind (validate_account_name to) (\<lambda>_.
     fc_assert (asset_amount amount > 0) ''amount.amount > 0''
     (fc_assert (asset_symbol amount = HIVE_SYMBOL \<or> asset_symbol amount = HBD_SYMBOL)
        ''amount.symbol == HIVE_SYMBOL || amount.symbol == HBD_SYMBOL''
     (fc_assert (length memo < HIVE_MAX_MEMO_SIZE) ''Memo is too large''
     (fc_assert (is_utf8 memo) ''Memo is not UTF8'' (Inr ()))))))"

definition transfer_to_savings_validate :: "(string \<Rightarrow> bool) \<Rightarrow> transfer_to_savings_operation \<Rightarrow> unit result" where
  "transfer_to_savings_validate is_utf8 op =
     savings_amount_validate is_utf8 (ts_from op) (ts_to op) (ts_amount op) (ts_memo op)"

definition transfer_from_savings_validate :: "(string \<Rightarrow> bool) \<Rightarrow> transfer_from_savings_operation \<Rightarrow> unit result" where
  "transfer_from_savings_validate is_utf8 op =
     savings_amount_validate is_utf8 (tf_from op) (tf_to op) (tf_amount op) (tf_memo op)"

definition cancel_transfer_from_savings_validate :: "cancel_transfer_from_savings_operation \<Rightarrow> unit result" where
  "cancel_transfer_from_savings_validate op = validate_account_name (cs_from op)"

section \<open>Who may release an escrow\<close>

lemma release_allowedD:
  assumes "escrow_release_allowed op e now = Inr ()"
  shows "if disputed e then er_who op = escrow_agent e
      else er_who op \<in> {escrow_from e, escrow_to e}
        \<and> (now < escrow_expiration e \<longrightarrow> escrow_from e \<noteq> escrow_to e \<longrightarrow> er_receiver op \<noteq> er_who op)"
  using assms by (auto simp: escrow_release_allowed_def result_simps split: if_splits)


definition sample_escrow :: escrow_object where
  "sample_escrow = \<lparr>escrow_id = 7, escrow_from = ''alice'', escrow_to = ''bob'', escrow_agent = ''carol'',
     ratification_deadline = 1690000000, escrow_expiration = 1710000000, escrow_hbd_balance = mk_asset 0 HBD_SYMBOL,
     escrow_hive_balance = mk_asset 50 HIVE_SYMBOL, pending_fee = mk_asset 0 HBD_SYMBOL, to_approved = True,
     agent_approved = True, disputed = False\<rparr>"

definition sample_release :: escrow_release_operation where
  "sample_release = \<lparr>er_from = ''alice'', er_to = ''bob'', er_agent = ''carol'', er_who = ''alice'', er_receiver = ''bob'',
     er_escrow_id = 7, er_hbd_amount = mk_asset 0 HBD_SYMBOL, er_hive_amount = mk_asset 20 HIVE_SYMBOL\<rparr>"

lemma sample_release_ok: "case escrow_release_apply sample_release (sample_db\<lparr>escrows := [sample_escrow]\<rparr>) of Inr _ \<Rightarrow> True | Inl _ \<Rightarrow> False"
  by code_simp


end
