(* ===== verification/Market.thy ===== *)
theory Market
  imports Transfers "HOL-Library.Multiset"
begin

text \<open>
  The internal market: limit orders of \<open>hive_evaluator.cpp\<close> and their matching in \<open>database.cpp\<close>
  (\<open>apply_order\<close>, \<open>match\<close>, \<open>fill_order\<close>, \<open>cancel_order\<close>, \<open>clear_expired_orders\<close>,
  \<open>adjust_liquidity_reward\<close>). The index \<open>by_price\<close> is the list of orders sorted by descending
  price and then by id; the range \<open>apply_order\<close> walks is the part of it between the two bounds,
  fixed before the loop since a match only changes the two orders it is given. The int that
  \<open>match\<close> returns is the pair of its two bits: new order filled, old order filled.
\<close>

section \<open>The order book\<close>

definition modify_order :: "string \<times> int \<Rightarrow> (limit_order_object \<Rightarrow> limit_order_object) \<Rightarrow> chain_db \<Rightarrow> chain_db" where
  "modify_order k f db = db\<lparr>limit_orders := tbl_modify order_key k f (limit_orders db)\<rparr>"

definition remove_order :: "string \<times> int \<Rightarrow> chain_db \<Rightarrow> chain_db" where
  "remove_order k db = db\<lparr>limit_orders := tbl_remove order_key k (limit_orders db)\<rparr>"

fun insert_by_price :: "limit_order_object \<Rightarrow> limit_order_object list \<Rightarrow> limit_order_object list" where
  "insert_by_price o1 [] = [o1]"
| "insert_by_price o1 (x # xs) =
     (if price_less (sell_price x) (sell_price o1) then o1 # x # xs else x # insert_by_price o1 xs)"

definition by_price :: "limit_order_object list \<Rightarrow> limit_order_object list" where
  "by_price xs = fold insert_by_price xs []"

section \<open>Liquidity rewards\<close>

definition HIVE_LIQUIDITY_TIMEOUT_SEC :: int where "HIVE_LIQUIDITY_TIMEOUT_SEC = 60 * 60 * 24 * 7"
definition HIVE_MIN_LIQUIDITY_REWARD_PERIOD_SEC :: int where "HIVE_MIN_LIQUIDITY_REWARD_PERIOD_SEC = 60"
definition HIVE_MIN_LIQUIDITY_REWARD_PERIOD_SEC_HF10 :: int where "HIVE_MIN_LIQUIDITY_REWARD_PERIOD_SEC_HF10 = 60 * 30"

definition lr_is_positive :: "liquidity_reward_balance_object \<Rightarrow> int" where
  "lr_is_positive r = (if hive_volume r > 0 \<and> hbd_volume r > 0 then 1 else 0)"

definition volume_weight :: "liquidity_reward_balance_object \<Rightarrow> int" where
  "volume_weight r = cast_u128 (cast_i64 (hive_volume r * hbd_volume r * lr_is_positive r))"

definition min_volume_weight :: "liquidity_reward_balance_object \<Rightarrow> int" where
  "min_volume_weight r = cast_u128 (min (hive_volume r) (hbd_volume r) * lr_is_positive r)"

definition update_weight :: "bool \<Rightarrow> liquidity_reward_balance_object \<Rightarrow> liquidity_reward_balance_object" where
  "update_weight hf9 r = r\<lparr>lr_weight := if hf9 then min_volume_weight r else volume_weight r\<rparr>"

definition adjust_liquidity_reward :: "chain_db \<Rightarrow> string \<Rightarrow> asset \<Rightarrow> bool \<Rightarrow> chain_db result" where
  "adjust_liquidity_reward db name volume is_hbd =
     rbind (get_account db name) (\<lambda>owner.
       case tbl_find lr_owner (acc_id owner) (liquidity_rewards db) of
         Some _ \<Rightarrow>
           Inr (db\<lparr>liquidity_rewards := tbl_modify lr_owner (acc_id owner) (\<lambda>r.
             let r = (if head_block_time db - lr_last_update r \<ge> HIVE_LIQUIDITY_TIMEOUT_SEC
                      then r\<lparr>hbd_volume := 0, hive_volume := 0, lr_weight := 0\<rparr> else r);
                 r = (if is_hbd then r\<lparr>hbd_volume := cast_i64 (hbd_volume r + asset_amount volume)\<rparr>
                      else r\<lparr>hive_volume := cast_i64 (hive_volume r + asset_amount volume)\<rparr>)
             in (update_weight (has_hardfork db 10) r)\<lparr>lr_last_update := head_block_time db\<rparr>) (liquidity_rewards db)\<rparr>)
       | None \<Rightarrow>
           let r = \<lparr>lr_owner = acc_id owner, lr_last_update = 0, lr_weight = 0, hive_volume = 0, hbd_volume = 0\<rparr>;
               r = (if is_hbd then r\<lparr>hbd_volume := asset_amount volume\<rparr> else r\<lparr>hive_volume := asset_amount volume\<rparr>);
               r = (update_weight (has_hardfork db 9) r)\<lparr>lr_last_update := head_block_time db\<rparr>
           in rbind (tbl_emplace lr_owner r (liquidity_rewards db)) (\<lambda>rs. Inr (db\<lparr>liquidity_rewards := rs\<rparr>)))"

section \<open>Filling and matching\<close>

definition cancel_order :: "chain_db \<Rightarrow> limit_order_object \<Rightarrow> chain_db result" where
  "cancel_order db order =
     rbind (adjust_balance db (lo_seller order) (amount_for_sale order)) (\<lambda>db.
       Inr (remove_order (order_key order) db))"

definition fill_order :: "chain_db \<Rightarrow> limit_order_object \<Rightarrow> asset \<Rightarrow> asset \<Rightarrow> (bool \<times> chain_db) result" where
  "fill_order db order pays receives =
     hive_assert (asset_symbol (amount_for_sale order) = asset_symbol pays) (Order_Fill_Exception ''error filling orders'')
     (hive_assert (asset_symbol pays \<noteq> asset_symbol receives) (Order_Fill_Exception ''error filling orders'')
     (rbind (adjust_balance db (lo_seller order) receives) (\<lambda>db.
       if pays = amount_for_sale order then Inr (True, remove_order (order_key order) db)
       else
         hive_assert (has_hardfork db 20 \<longrightarrow> asset_amount pays < for_sale order) (Order_Fill_Exception ''error filling orders'')
         (rbind (ssub (for_sale order) (asset_amount pays)) (\<lambda>rest.
          let order = order\<lparr>for_sale := rest\<rparr>;
              db = modify_order (order_key order) (\<lambda>b. b\<lparr>for_sale := rest\<rparr>) db in
          rbind (amount_to_receive order) (\<lambda>r.
            if asset_amount r = 0 then rbind (cancel_order db order) (\<lambda>db. Inr (True, db))
            else Inr (False, db)))))))"

definition match_amounts :: "limit_order_object \<Rightarrow> limit_order_object \<Rightarrow> price \<Rightarrow> (asset \<times> asset) result" where
  "match_amounts new_order old_order match_price =
     rbind (asset_mul_price (amount_for_sale old_order) match_price) (\<lambda>old_value.
     rbind (asset_leq (amount_for_sale new_order) old_value) (\<lambda>smaller.
       if smaller then
         rbind (asset_mul_price (amount_for_sale new_order) match_price) (\<lambda>new_order_receives.
           Inr (new_order_receives, amount_for_sale new_order))
       else Inr (amount_for_sale old_order, old_value)))"

definition match_orders :: "chain_db \<Rightarrow> limit_order_object \<Rightarrow> limit_order_object \<Rightarrow> price \<Rightarrow> ((bool \<times> bool) \<times> chain_db) result" where
  "match_orders db new_order old_order match_price =
     (let hf20 = has_hardfork db 20; err = Order_Match_Exception ''error matching orders'' in
      hive_assert (hf20 \<longrightarrow> asset_symbol (quote (sell_price new_order)) = asset_symbol (base (sell_price old_order))) err
     (hive_assert (hf20 \<longrightarrow> asset_symbol (base (sell_price new_order)) = asset_symbol (quote (sell_price old_order))) err
     (hive_assert (hf20 \<longrightarrow> for_sale new_order > 0 \<and> for_sale old_order > 0) err
     (hive_assert (hf20 \<longrightarrow> asset_symbol (quote match_price) = asset_symbol (base (sell_price new_order))) err
     (hive_assert (hf20 \<longrightarrow> asset_symbol (base match_price) = asset_symbol (base (sell_price old_order))) err
     (rbind (match_amounts new_order old_order match_price) (\<lambda>(new_order_receives, old_order_receives).
      let old_order_pays = new_order_receives; new_order_pays = old_order_receives in
      hive_assert (hf20 \<longrightarrow> new_order_pays = amount_for_sale new_order \<or> old_order_pays = amount_for_sale old_order) err
      (let age = head_block_time db - lo_created old_order in
       rbind (if \<not> has_hardfork db 12
                \<and> (age \<ge> HIVE_MIN_LIQUIDITY_REWARD_PERIOD_SEC \<and> \<not> has_hardfork db 10
                   \<or> age \<ge> HIVE_MIN_LIQUIDITY_REWARD_PERIOD_SEC_HF10 \<and> has_hardfork db 10) then
                if asset_symbol old_order_receives = HIVE_SYMBOL then
                  rbind (adjust_liquidity_reward db (lo_seller old_order) old_order_receives False) (\<lambda>db.
                  rbind (asset_neg old_order_receives) (\<lambda>neg.
                    adjust_liquidity_reward db (lo_seller new_order) neg False))
                else
                  rbind (adjust_liquidity_reward db (lo_seller old_order) new_order_receives True) (\<lambda>db.
                  rbind (asset_neg new_order_receives) (\<lambda>neg.
                    adjust_liquidity_reward db (lo_seller new_order) neg True))
              else Inr db) (\<lambda>db.
       rbind (fill_order db new_order new_order_pays new_order_receives) (\<lambda>(new_filled, db).
       rbind (fill_order db old_order old_order_pays old_order_receives) (\<lambda>(old_filled, db).
         hive_assert (hf20 \<longrightarrow> new_filled \<or> old_filled) err (Inr ((new_filled, old_filled), db)))))))))))))"

fun match_loop :: "chain_db \<Rightarrow> string \<times> int \<Rightarrow> limit_order_object list \<Rightarrow> chain_db result" where
  "match_loop db new_key [] = Inr db"
| "match_loop db new_key (old_order # rest) =
     rbind (tbl_get order_key new_key (limit_orders db)) (\<lambda>new_order.
     rbind (match_orders db new_order old_order (sell_price old_order)) (\<lambda>((new_filled, _), db).
       if new_filled then Inr db else match_loop db new_key rest))"

definition apply_order :: "chain_db \<Rightarrow> limit_order_object \<Rightarrow> (bool \<times> chain_db) result" where
  "apply_order db new_order =
     rbind (price_invert (sell_price new_order)) (\<lambda>max_price.
     rbind (price_max (asset_symbol (base max_price)) (asset_symbol (quote max_price))) (\<lambda>upper.
     rbind (match_loop db (order_key new_order)
              (by_price (filter (\<lambda>o1. price_leq (sell_price o1) upper \<and> price_leq max_price (sell_price o1)) (limit_orders db)))) (\<lambda>db.
       Inr (tbl_find order_key (order_key new_order) (limit_orders db) = None, db))))"

section \<open>Evaluators\<close>

definition HIVE_MAX_LIMIT_ORDER_EXPIRATION :: int where "HIVE_MAX_LIMIT_ORDER_EXPIRATION = 60 * 60 * 24 * 28"
definition HIVE_HARDFORK_0_20_TIME :: int where "HIVE_HARDFORK_0_20_TIME = 1537887600"

record limit_order_create_operation =
  loc_owner :: string
  loc_orderid :: int
  loc_amount_to_sell :: asset
  loc_min_to_receive :: asset
  loc_fill_or_kill :: bool
  loc_expiration :: int

record limit_order_create2_operation =
  loc2_owner :: string
  loc2_orderid :: int
  loc2_amount_to_sell :: asset
  loc2_fill_or_kill :: bool
  loc2_exchange_rate :: price
  loc2_expiration :: int

record limit_order_cancel_operation =
  lox_owner :: string
  lox_orderid :: int

definition create_limit_order :: "chain_db \<Rightarrow> string \<Rightarrow> asset \<Rightarrow> price \<Rightarrow> int \<Rightarrow> int \<Rightarrow> (limit_order_object \<times> chain_db) result" where
  "create_limit_order db seller amount p expiration orderid =
     fc_assert (asset_symbol amount = asset_symbol (base p)) ''_amount_to_sell.symbol == _sell_price.base.symbol''
     (let order = \<lparr>lo_created = head_block_time db, lo_expiration = expiration, lo_seller = seller, lo_orderid = orderid,
                    for_sale = asset_amount amount, sell_price = p\<rparr> in
      rbind (tbl_emplace order_key order (limit_orders db)) (\<lambda>os. Inr (order, db\<lparr>limit_orders := os\<rparr>)))"

definition place_order :: "chain_db \<Rightarrow> string \<Rightarrow> asset \<Rightarrow> price \<Rightarrow> int \<Rightarrow> int \<Rightarrow> bool \<Rightarrow> chain_db result" where
  "place_order db owner amount p expiration orderid fill_or_kill =
     rbind (asset_neg amount) (\<lambda>neg.
     rbind (adjust_balance db owner neg) (\<lambda>db.
     rbind (create_limit_order db owner amount p expiration orderid) (\<lambda>(order, db).
     rbind (apply_order db order) (\<lambda>(filled, db).
       fc_assert (fill_or_kill \<longrightarrow> filled) ''Cancelling order because it was not filled.'' (Inr db)))))"

definition limit_order_create_apply :: "int \<Rightarrow> limit_order_create_operation \<Rightarrow> chain_db \<Rightarrow> chain_db result" where
  "limit_order_create_apply head_block_id_hash4 op db =
     fc_assert (loc_expiration op > head_block_time db) ''Limit order has to expire after head block time.''
     (rbind (if has_hardfork db 20 then
               fc_assert (loc_expiration op \<le> cast_u32 (head_block_time db + HIVE_MAX_LIMIT_ORDER_EXPIRATION))
                 ''Limit Order Expiration must not be more than 28 days in the future'' (Inr (loc_expiration op))
             else Inr (min (loc_expiration op)
               (cast_u32 (HIVE_HARDFORK_0_20_TIME + HIVE_MAX_LIMIT_ORDER_EXPIRATION + head_block_id_hash4 mod 86400)))) (\<lambda>expiration.
      rbind (price_make (loc_amount_to_sell op) (loc_min_to_receive op)) (\<lambda>p.
        place_order db (loc_owner op) (loc_amount_to_sell op) p expiration (loc_orderid op) (loc_fill_or_kill op))))"

definition limit_order_create2_apply :: "limit_order_create2_operation \<Rightarrow> chain_db \<Rightarrow> chain_db result" where
  "limit_order_create2_apply op db =
     fc_assert (loc2_expiration op > head_block_time db) ''Limit order has to expire after head block time.''
     (rbind (if has_hardfork db 20 then
               fc_assert (loc2_expiration op \<le> cast_u32 (head_block_time db + HIVE_MAX_LIMIT_ORDER_EXPIRATION))
                 ''Limit Order Expiration must not be more than 28 days in the future'' (Inr (loc2_expiration op))
             else Inr (min (loc2_expiration op) (cast_u32 (HIVE_HARDFORK_0_20_TIME + HIVE_MAX_LIMIT_ORDER_EXPIRATION)))) (\<lambda>expiration.
        place_order db (loc2_owner op) (loc2_amount_to_sell op) (loc2_exchange_rate op) expiration (loc2_orderid op) (loc2_fill_or_kill op)))"

definition limit_order_cancel_apply :: "limit_order_cancel_operation \<Rightarrow> chain_db \<Rightarrow> chain_db result" where
  "limit_order_cancel_apply op db =
     rbind (get_limit_order db (lox_owner op) (lox_orderid op)) (\<lambda>order. cancel_order db order)"

section \<open>Expiry\<close>

lemma moves_find_orders: "moves d p db db' \<Longrightarrow> limit_orders db' = limit_orders db"
  by (simp add: moves_def same_objects_def)

lemma cancel_order_shrinks:
  assumes "cancel_order db o1 = Inr db'" "o1 \<in> set (limit_orders db)"
  shows "length (limit_orders db') < length (limit_orders db)"
proof -
  have "tbl_find order_key (order_key o1) (limit_orders db) \<noteq> None"
    using assms(2) by (auto simp: tbl_find_none)
  then have "on_ok (cancel_order db o1) (\<lambda>db'. length (limit_orders db') < length (limit_orders db))"
    unfolding cancel_order_def
    by (intro wp) (auto simp: remove_order_def moves_find_orders intro: length_tbl_remove)
  then show ?thesis using assms(1) by (rule on_okD)
qed

function clear_expired_orders :: "chain_db \<Rightarrow> chain_db result" where
  "clear_expired_orders db =
     (case tbl_begin lo_expiration (limit_orders db) of
        None \<Rightarrow> Inr db
      | Some o1 \<Rightarrow>
          if lo_expiration o1 < head_block_time db then rbind (cancel_order db o1) clear_expired_orders
          else Inr db)"
  by pat_completeness auto
termination
  by (relation "measure (\<lambda>db. length (limit_orders db))") (auto dest: tbl_begin_set cancel_order_shrinks)

declare clear_expired_orders.simps [simp del]

section \<open>Conservation of funds\<close>

lemma order_gaps:
  "tbl_find order_key k (limit_orders db) = Some o1 \<Longrightarrow>
     gap s (modify_order k f db) = gap s db + asset_of s (amount_for_sale (f o1)) - asset_of s (amount_for_sale o1)"
  "tbl_find order_key k (limit_orders db) = Some o1 \<Longrightarrow> gap s (remove_order k db) = gap s db - asset_of s (amount_for_sale o1)"
  "gap s (db\<lparr>limit_orders := limit_orders db @ [o1]\<rparr>) = gap s db + asset_of s (amount_for_sale o1)"
  "gap s (db\<lparr>liquidity_rewards := rs\<rparr>) = gap s db"
  by (simp_all add: gap_def object_funds_def modify_order_def remove_order_def total_modify total_remove)

lemma order_frames [simp]:
  "pending_gap (modify_order k f db) = pending_gap db" "pending_gap (remove_order k db) = pending_gap db"
  "pending_gap (db\<lparr>limit_orders := os\<rparr>) = pending_gap db" "pending_gap (db\<lparr>liquidity_rewards := rs\<rparr>) = pending_gap db"
  "accounts (modify_order k f db) = accounts db" "accounts (remove_order k db) = accounts db"
  "head_block_time (modify_order k f db) = head_block_time db" "head_block_time (remove_order k db) = head_block_time db"
  "head_block_time (db\<lparr>limit_orders := os\<rparr>) = head_block_time db"
  "head_block_time (db\<lparr>liquidity_rewards := rs\<rparr>) = head_block_time db"
  "feed_history (modify_order k f db) = feed_history db" "feed_history (remove_order k db) = feed_history db"
  "processed_hardforks (modify_order k f db) = processed_hardforks db" "processed_hardforks (remove_order k db) = processed_hardforks db"
  by (simp_all add: pending_gap_def modify_order_def remove_order_def head_block_time_def)

lemma objects_ok_orders:
  "objects_ok db \<Longrightarrow> objects_ok (remove_order k db)"
  "objects_ok db \<Longrightarrow> tbl_find order_key (order_key o1) (limit_orders db) = None \<Longrightarrow> order_ok o1 \<Longrightarrow>
     objects_ok (db\<lparr>limit_orders := limit_orders db @ [o1]\<rparr>)"
  "objects_ok db \<Longrightarrow> (\<And>o1. tbl_find order_key k (limit_orders db) = Some o1 \<Longrightarrow> order_ok o1 \<Longrightarrow> order_ok (f o1)) \<Longrightarrow>
     (\<And>o1. order_key (f o1) = order_key o1) \<Longrightarrow> objects_ok (modify_order k f db)"
  "objects_ok (db\<lparr>liquidity_rewards := rs\<rparr>) = objects_ok db"
  using distinct_modify [of order_key f k "limit_orders db"]
  by (simp_all add: objects_ok_def modify_order_def remove_order_def list_all_remove list_all_modify distinct_remove
      tbl_find_none image_iff)

lemma cancel_order_step:
  assumes "objects_ok db" "tbl_find order_key (order_key o1) (limit_orders db) = Some o1"
  shows "on_ok (cancel_order db o1) (\<lambda>db'. ledger_step db db' \<and> limit_orders db' = tbl_remove order_key (order_key o1) (limit_orders db))"
  unfolding cancel_order_def
proof (intro wp conjI, goal_cases)
  case (1 db1)
  then show ?case
    using assms by (intro moves_object_step [OF 1]) (simp_all add: order_gaps objects_ok_orders moves_find_orders)
qed (simp add: remove_order_def moves_find_orders)

lemma liquidity_reward_step: "objects_ok db \<Longrightarrow> ledger_step db (db\<lparr>liquidity_rewards := rs\<rparr>)"
  by (simp add: ledger_step_def funds_step_def order_gaps objects_ok_orders accounts_nonneg_def)

lemma adjust_liquidity_reward_step:
  assumes "objects_ok db"
  shows "on_ok (adjust_liquidity_reward db n v b) (\<lambda>db'. ledger_step db db' \<and> limit_orders db' = limit_orders db)"
  unfolding adjust_liquidity_reward_def Let_def
  by (intro wp) (simp_all add: assms liquidity_reward_step)

section \<open>What a match trades\<close>

lemma order_okD:
  assumes "order_ok o1"
  shows "0 < for_sale o1" "for_sale o1 \<le> int64_max" "price_ok (sell_price o1)" "0 < order_value o1" "order_value o1 \<le> int64_max"
    "0 < asset_amount (base (sell_price o1))" "0 < asset_amount (quote (sell_price o1))"
    "asset_symbol (base (sell_price o1)) \<noteq> asset_symbol (quote (sell_price o1))"
  using assms price_okD [of "sell_price o1"] by (auto simp: order_ok_def)

lemma amount_for_sale_fields [simp]:
  "asset_symbol (amount_for_sale o1) = asset_symbol (base (sell_price o1))" "asset_amount (amount_for_sale o1) = for_sale o1"
  by (simp_all add: amount_for_sale_def)

lemma amount_to_receive_nonneg:
  assumes "order_ok o1" "0 \<le> n" "n \<le> for_sale o1"
  shows "amount_to_receive (o1\<lparr>for_sale := n\<rparr>) = Inr (mk_asset (order_value (o1\<lparr>for_sale := n\<rparr>)) (asset_symbol (quote (sell_price o1))))"
    and "0 \<le> order_value (o1\<lparr>for_sale := n\<rparr>)" "order_value (o1\<lparr>for_sale := n\<rparr>) \<le> order_value o1"
proof -
  note d = order_okD [OF assms(1)]
  show le: "order_value (o1\<lparr>for_sale := n\<rparr>) \<le> order_value o1"
    using d assms by (simp add: order_value_def zdiv_mono1 mult_right_mono)
  show "0 \<le> order_value (o1\<lparr>for_sale := n\<rparr>)"
    using d assms by (simp add: order_value_def pos_imp_zdiv_nonneg_iff)
  show "amount_to_receive (o1\<lparr>for_sale := n\<rparr>) = Inr (mk_asset (order_value (o1\<lparr>for_sale := n\<rparr>)) (asset_symbol (quote (sell_price o1))))"
    using d assms le asset_mul_price_nonneg [of "sell_price o1" "amount_for_sale (o1\<lparr>for_sale := n\<rparr>)"]
    by (simp add: amount_to_receive_def mul_div_result_def order_value_def Let_def)
qed

lemma amount_to_receive_value:
  assumes "order_ok o1"
  shows "amount_to_receive o1 = Inr (mk_asset (order_value o1) (asset_symbol (quote (sell_price o1))))"
  using order_okD [OF assms] asset_mul_price_nonneg [of "sell_price o1" "amount_for_sale o1"]
  by (simp add: amount_to_receive_def mul_div_result_def order_value_def Let_def)

definition crossing :: "limit_order_object \<Rightarrow> limit_order_object \<Rightarrow> bool" where
  "crossing new_order old_order \<longleftrightarrow>
     asset_symbol (quote (sell_price new_order)) = asset_symbol (base (sell_price old_order))
   \<and> asset_symbol (base (sell_price new_order)) = asset_symbol (quote (sell_price old_order))"

definition bought :: "limit_order_object \<Rightarrow> limit_order_object \<Rightarrow> int" where
  "bought new_order old_order =
     for_sale new_order * asset_amount (base (sell_price old_order)) div asset_amount (quote (sell_price old_order))"

lemma div_mult_swap_le:
  fixes n s q b :: int
  assumes "n \<le> s * q div b" "0 < q" "0 < b"
  shows "n * b div q \<le> s"
proof -
  have "n * b \<le> (s * q div b) * b" using assms by (simp add: mult_right_mono)
  also have "\<dots> \<le> s * q" using div_mult_mod_eq [of "s * q" b] pos_mod_sign [of b "s * q"] assms(3) by linarith
  finally have "n * b \<le> s * q" .
  then have "n * b div q \<le> s * q div q" using assms(2) by (intro zdiv_mono1)
  then show ?thesis using assms(2) by simp
qed

lemma bought_le: "order_ok old \<Longrightarrow> for_sale new \<le> order_value old \<Longrightarrow> bought new old \<le> for_sale old"
  unfolding bought_def order_value_def by (rule div_mult_swap_le) (auto dest: order_okD)

lemma match_amounts_value:
  assumes new: "order_ok new" and old: "order_ok old" and x: "crossing new old"
  shows "match_amounts new old (sell_price old) =
    Inr (if for_sale new \<le> order_value old
         then (mk_asset (bought new old) (asset_symbol (base (sell_price old))), amount_for_sale new)
         else (amount_for_sale old, mk_asset (order_value old) (asset_symbol (quote (sell_price old)))))"
proof -
  note n = order_okD [OF new] and o' = order_okD [OF old]
  have v: "asset_mul_price (amount_for_sale old) (sell_price old) = Inr (mk_asset (order_value old) (asset_symbol (quote (sell_price old))))"
    using amount_to_receive_value [OF old] by (simp add: amount_to_receive_def)
  have b: "asset_mul_price (amount_for_sale new) (sell_price old) = Inr (mk_asset (bought new old) (asset_symbol (base (sell_price old))))"
    if "for_sale new \<le> order_value old"
    using asset_mul_price_nonneg [of "sell_price old" "amount_for_sale new"] n o' x bought_le [OF old that]
    by (auto simp: crossing_def mul_div_result_def bought_def Let_def)
  show ?thesis
    using x by (simp add: match_amounts_def v b asset_leq_def same_symbol_def crossing_def)
qed

lemma match_amounts_limits:
  assumes "order_ok new" "order_ok old" "crossing new old"
    and "price_leq (mk_price (quote (sell_price new)) (base (sell_price new))) (sell_price old)"
    and "match_amounts new old (sell_price old) = Inr (new_receives, old_receives)"
  shows "0 \<le> asset_amount new_receives \<and> asset_amount new_receives \<le> for_sale old
    \<and> 0 < asset_amount old_receives \<and> asset_amount old_receives \<le> for_sale new
    \<and> (new_receives = amount_for_sale old \<or> old_receives = amount_for_sale new)
    \<and> asset_amount old_receives * asset_amount (quote (sell_price new)) div asset_amount (base (sell_price new)) \<le> asset_amount new_receives
    \<and> asset_amount new_receives * asset_amount (quote (sell_price old)) div asset_amount (base (sell_price old)) \<le> asset_amount old_receives"
proof -
  note n = order_okD [OF assms(1)] and o' = order_okD [OF assms(2)]
  define nb nq ob oq where defs: "nb = asset_amount (base (sell_price new))" "nq = asset_amount (quote (sell_price new))"
    "ob = asset_amount (base (sell_price old))" "oq = asset_amount (quote (sell_price old))"
  have pos: "0 < nb" "0 < nq" "0 < ob" "0 < oq" using n o' by (simp_all add: defs)
  have better: "nq * oq \<le> ob * nb"
  proof -
    have inv: "price_ok (mk_price (quote (sell_price new)) (base (sell_price new)))"
      using price_okD [OF n(3)] by (simp add: price_ok_def price_validate_def)
    then show ?thesis
      using assms(3,4) price_mult_exact [OF inv o'(3)] price_mult_exact [OF o'(3) inv]
      by (simp add: price_leq_def price_BQ_def crossing_def defs mult.commute)
  qed
  have limit: "x * nq div nb \<le> x * ob div oq" if "0 \<le> x" for x
  proof -
    have "x * nq div nb = x * nq * oq div (nb * oq)" using pos by (simp add: mult.commute mult.assoc)
    also have "\<dots> \<le> x * ob * nb div (nb * oq)"
      using that better pos by (intro zdiv_mono1) (simp_all add: mult.assoc mult_left_mono)
    also have "\<dots> = x * ob div oq" using pos by (simp add: mult.commute mult.left_commute)
    finally show ?thesis .
  qed
  show ?thesis
  proof (cases "for_sale new \<le> order_value old")
    case True
    then have r: "asset_amount new_receives = for_sale new * ob div oq" "old_receives = amount_for_sale new"
      using assms(5) match_amounts_value [OF assms(1-3)] by (auto simp: bought_def defs)
    moreover have "for_sale new * ob div oq \<le> for_sale old" using bought_le [OF assms(2) True] by (simp add: bought_def defs)
    moreover have "0 \<le> for_sale new * ob div oq" using n pos by (simp add: pos_imp_zdiv_nonneg_iff)
    moreover have "for_sale new * ob div oq * oq div ob \<le> for_sale new"
      using pos by (intro div_mult_swap_le [OF order_refl])
    ultimately show ?thesis using limit [of "for_sale new"] n by (simp add: defs)
  next
    case False
    then have r: "new_receives = amount_for_sale old" "asset_amount old_receives = for_sale old * oq div ob"
      using assms(5) match_amounts_value [OF assms(1-3)] by (auto simp: order_value_def defs)
    have "for_sale old * oq div ob * nq div nb \<le> for_sale old * oq div ob * ob div oq"
      using o' pos by (intro limit) (simp add: pos_imp_zdiv_nonneg_iff)
    also have "\<dots> \<le> for_sale old" using pos by (intro div_mult_swap_le [OF order_refl])
    finally show ?thesis using r False o' by (simp add: order_value_def defs)
  qed
qed

text \<open>
  Property C6. A match respects both limit prices: neither order is charged more than it has for
  sale, and each receives at least what its own limit price asks for the amount it pays,
  rounded down. The order already in the book sets the price, and at least one of the two
  orders trades everything it has for sale.
\<close>

theorem match_respects_limits:
  assumes "order_ok new" "order_ok old" "crossing new old"
    and "price_leq (mk_price (quote (sell_price new)) (base (sell_price new))) (sell_price old)"
    and "match_amounts new old (sell_price old) = Inr (new_receives, old_receives)"
  shows "0 \<le> asset_amount new_receives \<and> asset_amount new_receives \<le> for_sale old
    \<and> 0 < asset_amount old_receives \<and> asset_amount old_receives \<le> for_sale new
    \<and> (new_receives = amount_for_sale old \<or> old_receives = amount_for_sale new)
    \<and> asset_amount old_receives * asset_amount (quote (sell_price new)) div asset_amount (base (sell_price new)) \<le> asset_amount new_receives
    \<and> asset_amount new_receives * asset_amount (quote (sell_price old)) div asset_amount (base (sell_price old)) \<le> asset_amount old_receives"
  by (rule match_amounts_limits [OF assms])

definition sample_order :: "string \<Rightarrow> int \<Rightarrow> asset \<Rightarrow> asset \<Rightarrow> limit_order_object" where
  "sample_order seller i sells wants = \<lparr>lo_created = 1690000000, lo_expiration = 1701000000, lo_seller = seller,
     lo_orderid = i, for_sale = asset_amount sells, sell_price = mk_price sells wants\<rparr>"

theorem match_respects_limits_witness:
  "let new = sample_order ''alice'' 1 (mk_asset 100 HIVE_SYMBOL) (mk_asset 25 HBD_SYMBOL);
       old = sample_order ''bob'' 1 (mk_asset 30 HBD_SYMBOL) (mk_asset 70 HIVE_SYMBOL) in
   match_amounts new old (sell_price old) = Inr (mk_asset 30 HBD_SYMBOL, mk_asset 70 HIVE_SYMBOL)
   \<and> 70 * 25 div 100 \<le> asset_amount (mk_asset 30 HBD_SYMBOL)"
proof -
  let ?new = "sample_order ''alice'' 1 (mk_asset 100 HIVE_SYMBOL) (mk_asset 25 HBD_SYMBOL)"
  let ?old = "sample_order ''bob'' 1 (mk_asset 30 HBD_SYMBOL) (mk_asset 70 HIVE_SYMBOL)"
  have ok: "order_ok ?new" "order_ok ?old" "crossing ?new ?old"
    by (simp_all add: sample_order_def order_ok_def order_value_def price_ok_def price_validate_def fund_symbol_def crossing_def)
  have leq: "price_leq (mk_price (quote (sell_price ?new)) (base (sell_price ?new))) (sell_price ?old)"
    by (simp add: sample_order_def price_leq_def price_BQ_def price_mult_def cast_u128_def)
  have r: "match_amounts ?new ?old (sell_price ?old) = Inr (mk_asset 30 HBD_SYMBOL, mk_asset 70 HIVE_SYMBOL)"
    using match_amounts_value [OF ok] by (simp add: sample_order_def order_value_def amount_for_sale_def)
  show ?thesis using match_respects_limits [OF ok leq r] r by (simp add: sample_order_def Let_def)
qed

section \<open>Matching conserves funds and cannot fail its own checks\<close>

lemma remove_modified_order:
  "tbl_remove order_key k (tbl_modify order_key k (\<lambda>b. b\<lparr>for_sale := r\<rparr>) xs) = tbl_remove order_key k xs"
  by (induction xs) auto

lemma wp_amount_to_receive [wp]: "(\<And>r. amount_to_receive o1 = Inr r \<Longrightarrow> Q r) \<Longrightarrow> on_ok (amount_to_receive o1) Q"
  by (rule on_okI)

text \<open>What an order looks like after paying \<open>paid\<close>: gone, or in the book with the rest.\<close>

definition order_after :: "limit_order_object \<Rightarrow> int \<Rightarrow> bool \<Rightarrow> limit_order_object list \<Rightarrow> limit_order_object list" where
  "order_after o1 paid filled os =
     (if filled then tbl_remove order_key (order_key o1) os
      else tbl_modify order_key (order_key o1) (\<lambda>b. b\<lparr>for_sale := for_sale o1 - paid\<rparr>) os)"

lemma fill_order_shift:
  assumes ok: "objects_ok db" and o1: "tbl_find order_key (order_key o1) (limit_orders db) = Some o1"
    and pays: "0 \<le> asset_amount pays" "asset_amount pays \<le> for_sale o1"
  shows "on_ok (fill_order db o1 pays receives) (\<lambda>(filled, db').
    ledger_shift (\<lambda>s. asset_of s receives - asset_of s pays) db db'
    \<and> limit_orders db' = order_after o1 (asset_amount pays) filled (limit_orders db)
    \<and> (pays = amount_for_sale o1 \<longrightarrow> filled))"
  unfolding fill_order_def Let_def cancel_order_def
proof (intro wp, unfold prod.case, goal_cases)
  case (1 db1)
  then show ?case
    using ok o1 by (intro conjI moves_object_shift [OF 1(3) ok])
      (simp_all add: order_gaps objects_ok_orders moves_find_orders order_after_def, simp add: remove_order_def moves_find_orders)
next
  case (2 db1 r db2)
  let ?rest = "for_sale o1 - asset_amount pays"
  let ?o = "o1\<lparr>for_sale := ?rest\<rparr>" and ?mid = "modify_order (order_key o1) (\<lambda>b. b\<lparr>for_sale := ?rest\<rparr>) db1"
  have o2: "limit_orders db2 = tbl_modify order_key (order_key o1) (\<lambda>b. b\<lparr>for_sale := ?rest\<rparr>) (limit_orders db)"
    using 2(3,8) by (simp add: moves_find_orders modify_order_def)
  then have f2: "tbl_find order_key (order_key o1) (limit_orders db2) = Some ?o"
    using o1 by (simp add: tbl_find_modify)
  have rem: "limit_orders (remove_order (order_key o1) db2) = tbl_remove order_key (order_key o1) (limit_orders db)"
    by (simp add: remove_order_def o2 remove_modified_order)
  have "asset_of s (amount_for_sale ?o) = asset_of s (amount_for_sale o1) - asset_of s pays" for s
    using 2(1) by (simp add: asset_of_def)
  then have "gap s (remove_order (order_key o1) db2) = gap s db + (asset_of s receives - asset_of s pays)" for s
    using f2 2(3,8) o1 by (simp add: order_gaps moves_def same_objects_def)
  moreover have "objects_ok (remove_order (order_key o1) db2)"
    using objects_ok_orders(1) [OF ok, of "order_key o1"] 2(3,8) rem
    by (simp add: objects_ok_def moves_def same_objects_def remove_order_def modify_order_def)
  ultimately show ?case
    using 2(3,8) rem acc_card_ident [of "accounts db2" "accounts db"]
    by (simp add: ledger_shift_def order_after_def moves_def same_objects_def accounts_step_def accounts_nonneg_def has_hardfork_def)
next
  case (3 db1 r)
  let ?rest = "for_sale o1 - asset_amount pays"
  let ?o = "o1\<lparr>for_sale := ?rest\<rparr>"
  have oo: "order_ok o1" using ok o1 by (auto simp: objects_ok_def dest: list_all_find)
  note d = order_okD [OF oo]
  have lt: "asset_amount pays < for_sale o1"
    using 3(1,4) pays(2) by (cases pays) (auto simp: amount_for_sale_def)
  have "0 < order_value ?o" "order_value ?o \<le> order_value o1"
    using amount_to_receive_nonneg [OF oo, of ?rest] lt pays 3(6,7) by simp_all
  then have "order_ok ?o" using oo d lt pays by (simp add: order_ok_def order_value_def)
  moreover have "asset_of s (amount_for_sale ?o) = asset_of s (amount_for_sale o1) - asset_of s pays" for s
    using 3(1) by (simp add: asset_of_def)
  ultimately have "ledger_shift (\<lambda>s. asset_of s receives - asset_of s pays) db
    (modify_order (order_key o1) (\<lambda>b. b\<lparr>for_sale := ?rest\<rparr>) db1)"
    using o1 moves_find_orders [OF 3(3)]
    by (intro moves_object_shift [OF 3(3) ok] objects_ok_orders(3)) (simp_all add: order_gaps)
  then show ?case
    using 3(3,4) by (simp add: order_after_def moves_find_orders) (simp add: modify_order_def moves_find_orders)
qed

text \<open>A match: funds are conserved, other orders stay, and an unfilled new order keeps its price.\<close>

lemma order_after_find:
  assumes "tbl_find order_key (order_key o1) os = Some o1"
  shows "k \<noteq> order_key o1 \<Longrightarrow> tbl_find order_key k (order_after o1 p f os) = tbl_find order_key k os"
    and "tbl_find order_key (order_key o1) (order_after o1 p False os) = Some (o1\<lparr>for_sale := for_sale o1 - p\<rparr>)"
  using assms by (simp_all add: order_after_def tbl_find_modify tbl_find_remove_other)

lemma liquidity_rewards_step:
  assumes "objects_ok db"
  shows "on_ok (rbind (adjust_liquidity_reward db n v b) (\<lambda>db1. rbind (asset_neg v') (\<lambda>neg. adjust_liquidity_reward db1 n' neg b)))
    (\<lambda>db'. ledger_step db db' \<and> limit_orders db' = limit_orders db)"
proof (rule on_ok_rbind [OF adjust_liquidity_reward_step [OF assms]], goal_cases)
  case (1 db1)
  then have "objects_ok db1" by (simp add: ledger_step_def)
  then show ?case
    using 1 by (intro wp_rbind wp_asset_neg on_ok_mono [OF adjust_liquidity_reward_step]) (auto intro: ledger_step_trans)
qed

definition match_result :: "chain_db \<Rightarrow> limit_order_object \<Rightarrow> limit_order_object \<Rightarrow> bool \<Rightarrow> chain_db \<Rightarrow> bool" where
  "match_result db new old filled db' \<longleftrightarrow> ledger_step db db'
     \<and> (\<forall>k. k \<noteq> order_key new \<longrightarrow> k \<noteq> order_key old \<longrightarrow>
          tbl_find order_key k (limit_orders db') = tbl_find order_key k (limit_orders db))
     \<and> (\<not> filled \<longrightarrow> (\<exists>m. tbl_find order_key (order_key new) (limit_orders db') = Some (new\<lparr>for_sale := m\<rparr>)))"

lemma match_orders_step:
  assumes ok: "objects_ok db" and n: "tbl_find order_key (order_key new) (limit_orders db) = Some new"
    and o': "tbl_find order_key (order_key old) (limit_orders db) = Some old" and ne: "order_key new \<noteq> order_key old"
    and x: "crossing new old"
    and leq: "price_leq (mk_price (quote (sell_price new)) (base (sell_price new))) (sell_price old)"
  shows "on_ok (match_orders db new old (sell_price old)) (\<lambda>((filled, _), db'). match_result db new old filled db')"
    (is "on_ok _ ?Q")
proof -
  have oks: "order_ok new" "order_ok old"
    using ok n o' by (auto simp: objects_ok_def dest: list_all_find)
  obtain nr or where m: "match_amounts new old (sell_price old) = Inr (nr, or)"
    using match_amounts_value [OF oks x] by (cases "for_sale new \<le> order_value old") simp_all
  note lim = match_amounts_limits [OF oks x leq m]
  have fill_both: "on_ok (rbind (fill_order db1 new or nr) (\<lambda>(nf, db2). rbind (fill_order db2 old nr or) (\<lambda>(ofl, db').
      hive_assert (hf20 \<longrightarrow> nf \<or> ofl) err (Inr ((nf, ofl), db'))))) ?Q"
    if db1: "ledger_step db db1 \<and> limit_orders db1 = limit_orders db" for db1 hf20 err
  proof (rule on_ok_rbind [OF fill_order_shift], goal_cases)
    case (5 r)
    note one = 5
    obtain nf db2 where r: "r = (nf, db2)" by force
    have o2: "tbl_find order_key (order_key old) (limit_orders db2) = Some old"
      using 5 n o' ne [symmetric] db1 order_after_find(1) [OF n] by (simp add: r del: prod.inject)
    show ?case
      unfolding r prod.case
    proof (rule on_ok_rbind [OF fill_order_shift], goal_cases)
      case (5 r')
      obtain ofl db3 where r': "r' = (ofl, db3)" by force
      have shifts: "ledger_shift (\<lambda>s. asset_of s nr - asset_of s or) db1 db2" "ledger_shift (\<lambda>s. asset_of s or - asset_of s nr) db2 db3"
        using one 5 by (simp_all add: r r')
      have "ledger_shift (\<lambda>s. 0) db1 db3"
        by (rule ledger_shift_trans [OF shifts]) simp
      then have "ledger_step db db3" using db1 ledger_step_trans [of db db1 db3] by (simp add: ledger_step_shift [of db1])
      moreover have l: "limit_orders db2 = order_after new (asset_amount or) nf (limit_orders db)"
        "limit_orders db3 = order_after old (asset_amount nr) ofl (limit_orders db2)"
        using 5 one db1 by (simp_all add: r r')
      have other: "tbl_find order_key k (limit_orders db3) = tbl_find order_key k (limit_orders db2)" if "k \<noteq> order_key old" for k
        unfolding l(2) by (rule order_after_find(1) [OF o2 that])
      moreover have "tbl_find order_key k (limit_orders db2) = tbl_find order_key k (limit_orders db)" if "k \<noteq> order_key new" for k
        unfolding l(1) by (rule order_after_find(1) [OF n that])
      moreover have "\<not> nf \<Longrightarrow> tbl_find order_key (order_key new) (limit_orders db3) = Some (new\<lparr>for_sale := for_sale new - asset_amount or\<rparr>)"
        unfolding other [OF ne] l(1) using order_after_find(2) [OF n] by simp
      ultimately have "match_result db new old nf db3"
        unfolding match_result_def by (simp del: prod.inject) blast
      then show ?case unfolding r' prod.case by (intro wp) simp
    qed (insert one lim o2, simp_all add: r ledger_shift_def)
  qed (insert db1 n lim, simp_all add: ledger_step_def)
  show ?thesis
    unfolding match_orders_def Let_def m rbind_Inr prod.case
    by (intro wp_hive_assert, rule on_ok_rbind [OF _ fill_both])
      (auto intro!: wp_if liquidity_rewards_step ok wp_Inr ledger_step_refl)
qed

section \<open>The order book conserves funds\<close>

lemma match_loop_step:
  assumes "objects_ok db" "tbl_find order_key (order_key new) (limit_orders db) = Some new" "distinct (map order_key olds)"
    and "\<And>o1. o1 \<in> set olds \<Longrightarrow> tbl_find order_key (order_key o1) (limit_orders db) = Some o1 \<and> order_key o1 \<noteq> order_key new
      \<and> crossing new o1 \<and> price_leq (mk_price (quote (sell_price new)) (base (sell_price new))) (sell_price o1)"
  shows "on_ok (match_loop db (order_key new) olds) (ledger_step db)"
  using assms
proof (induction olds arbitrary: db new)
  case Nil
  then show ?case by (simp add: on_ok_def ledger_step_refl)
next
  case (Cons old olds)
  have step: "on_ok (match_orders db new old (sell_price old)) (\<lambda>((filled, _), db'). match_result db new old filled db')"
    using Cons.prems(4) [of old] by (intro match_orders_step Cons.prems(1,2)) (simp_all, metis)
  have rest: "on_ok (if filled then Inr db' else match_loop db' (order_key new) olds) (ledger_step db)"
    if m: "match_result db new old filled db'" for filled db'
  proof (cases filled)
    case True
    then show ?thesis using m by (simp add: on_ok_def match_result_def)
  next
    case False
    then obtain n where f: "tbl_find order_key (order_key new) (limit_orders db') = Some (new\<lparr>for_sale := n\<rparr>)" 
      using m by (auto simp: match_result_def)
    have "on_ok (match_loop db' (order_key (new\<lparr>for_sale := n\<rparr>)) olds) (ledger_step db')"
    proof (rule Cons.IH)
      fix o1 assume o1: "o1 \<in> set olds"
      then have "order_key o1 \<noteq> order_key old" using Cons.prems(3) by (auto simp: image_iff)
      then show "tbl_find order_key (order_key o1) (limit_orders db') = Some o1 \<and> order_key o1 \<noteq> order_key (new\<lparr>for_sale := n\<rparr>)
        \<and> crossing (new\<lparr>for_sale := n\<rparr>) o1
        \<and> price_leq (mk_price (quote (sell_price (new\<lparr>for_sale := n\<rparr>))) (base (sell_price (new\<lparr>for_sale := n\<rparr>)))) (sell_price o1)"
        using Cons.prems(4) [of o1] o1 m by (simp add: match_result_def crossing_def del: prod.inject)
    qed (insert Cons.prems(3) m f, simp_all add: match_result_def ledger_step_def)
    then show ?thesis
      using False m by (simp add: match_result_def) (metis on_ok_mono ledger_step_trans)
  qed
  show ?case
    unfolding match_loop.simps
  proof (intro wp_rbind wp_tbl_get, goal_cases)
    case (1 x)
    then have "x = new" using Cons.prems(2) by simp
    then show ?case using rest by (auto intro!: on_ok_mono [OF step])
  qed
qed

lemma mset_by_price: "mset (by_price xs) = mset xs"
proof -
  have ins: "mset (insert_by_price x ys) = add_mset x (mset ys)" for x ys
    by (induction ys) auto
  have "mset (fold insert_by_price xs ys) = mset xs + mset ys" for ys
    by (induction xs arbitrary: ys) (simp_all add: ins)
  then show ?thesis by (simp add: by_price_def)
qed

lemma set_by_price [simp]: "set (by_price xs) = set xs"
  using mset_by_price by (metis set_mset_mset)

lemma distinct_by_price [simp]: "distinct (map f (by_price xs)) = distinct (map f xs)"
  using mset_by_price by (metis mset_eq_imp_distinct_iff mset_map)

lemma price_leq_BQ: "price_leq a b \<Longrightarrow> price_BQ a \<le> price_BQ b"
  by (auto simp: price_leq_def split: if_splits)

lemma apply_order_step:
  assumes ok: "objects_ok db" and n: "tbl_find order_key (order_key new) (limit_orders db) = Some new"
  shows "on_ok (apply_order db new) (\<lambda>(_, db'). ledger_step db db')"
  unfolding apply_order_def
proof (intro wp_rbind on_okI, goal_cases)
  case (1 max_price upper r x)
  have m: "max_price = mk_price (quote (sell_price new)) (base (sell_price new))"
    using 1(1) by (auto simp: price_invert_def price_make_def result_simps)
  have u: "price_BQ upper = price_BQ max_price"
    using 1(2) by (auto simp: price_max_def price_make_def price_BQ_def result_simps)
  let ?P = "\<lambda>o1. price_leq (sell_price o1) upper \<and> price_leq max_price (sell_price o1)"
  let ?olds = "by_price (filter ?P (limit_orders db))"
  have "on_ok (match_loop db (order_key new) ?olds) (ledger_step db)"
  proof (rule match_loop_step [OF ok n])
    show "distinct (map order_key ?olds)"
      using ok by (simp add: objects_ok_def distinct_map_filter)
    fix o1 assume "o1 \<in> set ?olds"
    then have o1: "o1 \<in> set (limit_orders db)" "?P o1" by simp_all
    then have find: "tbl_find order_key (order_key o1) (limit_orders db) = Some o1"
      by (intro objects_ok_find(3) [OF ok])
    have "price_BQ (sell_price o1) = price_BQ max_price"
      using price_leq_BQ o1(2) u by (metis order_antisym)
    then have "crossing new o1" by (simp add: m crossing_def price_BQ_def)
    moreover have "order_key o1 \<noteq> order_key new"
      using find n ok order_okD(8) [of new] \<open>crossing new o1\<close>
      by (metis crossing_def list_all_find objects_ok_def option.inject)
    ultimately show "tbl_find order_key (order_key o1) (limit_orders db) = Some o1 \<and> order_key o1 \<noteq> order_key new
      \<and> crossing new o1 \<and> price_leq (mk_price (quote (sell_price new)) (base (sell_price new))) (sell_price o1)"
      using find o1(2) m by simp
  qed
  then show ?case
    using 1(3,4) by (auto simp: on_ok_def)
qed

text \<open>
  The terms of an order that validation lets through, on the market of HIVE and HBD: both amounts
  positive, and proceeds that are positive and fit a signed 64-bit amount.
\<close>

definition terms_ok :: "asset \<Rightarrow> price \<Rightarrow> bool" where
  "terms_ok amount p \<longleftrightarrow> 0 < asset_amount amount \<and> asset_amount amount \<le> int64_max \<and> price_ok p
     \<and> fund_symbol (asset_symbol (base p)) \<and> fund_symbol (asset_symbol (quote p))
     \<and> 0 < asset_amount amount * asset_amount (quote p) div asset_amount (base p)
     \<and> asset_amount amount * asset_amount (quote p) div asset_amount (base p) \<le> int64_max"

lemma place_order_step:
  assumes ok: "objects_ok db" and t: "terms_ok amount p"
  shows "on_ok (place_order db owner amount p expiration orderid fok) (ledger_step db)"
  unfolding place_order_def create_limit_order_def Let_def
proof (intro wp, goal_cases)
  case (1 neg db1 order db2)
  let ?o = "\<lparr>lo_created = head_block_time db1, lo_expiration = expiration, lo_seller = owner, lo_orderid = orderid,
    for_sale = asset_amount amount, sell_price = p\<rparr>"
  let ?db2 = "db1\<lparr>limit_orders := limit_orders db1 @ [?o]\<rparr>"
  have o2: "order_ok ?o" using t by (simp add: terms_ok_def order_ok_def order_value_def)
  have step: "ledger_step db ?db2"
    using 1(1-6) ok o2 by (intro moves_object_step [OF 1(4)])
      (simp_all add: order_gaps objects_ok_orders asset_of_def amount_for_sale_def)
  have "tbl_find order_key (order_key ?o) (limit_orders ?db2) = Some ?o"
    using 1(6) by (simp add: tbl_find_append)
  with step have "on_ok (apply_order ?db2 ?o) (\<lambda>(_, db'). ledger_step ?db2 db')"
    by (intro apply_order_step) (simp_all add: ledger_step_def)
  then show ?case
    using 1(7)
    by (elim Pair_inject, hypsubst, elim on_ok_mono) (auto intro!: wp intro: ledger_step_trans [OF step])
qed

lemma limit_order_create_step:
  assumes "objects_ok db" "terms_ok (loc_amount_to_sell op) (mk_price (loc_amount_to_sell op) (loc_min_to_receive op))"
  shows "on_ok (limit_order_create_apply h op db) (ledger_step db)"
  unfolding limit_order_create_apply_def price_make_def
  by (intro wp place_order_step assms on_okI [of "price_validate _"])

lemma limit_order_create2_step:
  assumes "objects_ok db" "terms_ok (loc2_amount_to_sell op) (loc2_exchange_rate op)"
  shows "on_ok (limit_order_create2_apply op db) (ledger_step db)"
  unfolding limit_order_create2_apply_def by (intro wp place_order_step assms)

lemma limit_order_cancel_step:
  assumes "objects_ok db"
  shows "on_ok (limit_order_cancel_apply op db) (ledger_step db)"
  unfolding limit_order_cancel_apply_def get_limit_order_def
proof (intro wp, goal_cases)
  case (1 order)
  then show ?case
    using tbl_find_key [OF 1] objects_ok_find(3) [OF assms] by (intro on_ok_mono [OF cancel_order_step [OF assms]]) auto
qed

lemma clear_expired_orders_step: "objects_ok db \<Longrightarrow> on_ok (clear_expired_orders db) (ledger_step db)"
proof (induction db rule: clear_expired_orders.induct)
  case (1 db)
  have "on_ok (rbind (cancel_order db o1) clear_expired_orders) (ledger_step db)"
    if o1: "tbl_begin lo_expiration (limit_orders db) = Some o1" "lo_expiration o1 < head_block_time db" for o1
  proof (rule wp_rbind, rule on_okI)
    fix db1 assume c: "cancel_order db o1 = Inr db1"
    have "ledger_step db db1"
      using on_okD [OF cancel_order_step c] objects_ok_find(3) [OF 1(2)] tbl_begin_set [OF o1(1)] 1(2) by blast
    moreover from this have "on_ok (clear_expired_orders db1) (ledger_step db1)"
      using 1(1) [OF o1 c] ledger_step_def by blast
    ultimately show "on_ok (clear_expired_orders db1) (ledger_step db)"
      by (blast intro: on_ok_mono ledger_step_trans)
  qed
  then show ?case
    using 1(2) by (subst clear_expired_orders.simps) (auto intro!: wp ledger_step_refl split: option.splits)
qed

section \<open>Validation\<close>

definition limit_order_market :: "asset_symbol_type \<Rightarrow> asset_symbol_type \<Rightarrow> bool" where
  "limit_order_market sells wants \<longleftrightarrow>
     sells = HIVE_SYMBOL \<and> wants = HBD_SYMBOL \<or> sells = HBD_SYMBOL \<and> wants = HIVE_SYMBOL
   \<or> symbol_space sells = Smt_Nai_Space \<and> wants = HIVE_SYMBOL \<or> sells = HIVE_SYMBOL \<and> symbol_space wants = Smt_Nai_Space"

definition limit_order_create_validate :: "limit_order_create_operation \<Rightarrow> unit result" where
  "limit_order_create_validate op =
     rbind (validate_account_name (loc_owner op)) (\<lambda>_.
     fc_assert (limit_order_market (asset_symbol (loc_amount_to_sell op)) (asset_symbol (loc_min_to_receive op)))
       ''Limit order must be for the HIVE:HBD or SMT:(HIVE/HBD) market''
     (rbind (price_make (loc_amount_to_sell op) (loc_min_to_receive op)) price_validate))"

definition limit_order_create2_validate :: "limit_order_create2_operation \<Rightarrow> unit result" where
  "limit_order_create2_validate op =
     rbind (validate_account_name (loc2_owner op)) (\<lambda>_.
     fc_assert (asset_symbol (loc2_amount_to_sell op) = asset_symbol (base (loc2_exchange_rate op)))
       ''Sell asset must be the base of the price''
     (rbind (price_validate (loc2_exchange_rate op)) (\<lambda>_.
      fc_assert (limit_order_market (asset_symbol (loc2_amount_to_sell op)) (asset_symbol (quote (loc2_exchange_rate op))))
        ''Limit order must be for the HIVE:HBD or SMT:(HIVE/HBD) market''
      (rbind (asset_mul_price (loc2_amount_to_sell op) (loc2_exchange_rate op)) (\<lambda>x.
       fc_assert (asset_amount x > 0) ''Amount to sell cannot round to 0 when traded'' (Inr ()))))))"

definition limit_order_cancel_validate :: "limit_order_cancel_operation \<Rightarrow> unit result" where
  "limit_order_cancel_validate op = validate_account_name (lox_owner op)"

text \<open>Validation of a plain limit order in the HIVE and HBD market gives its terms.\<close>

lemma limit_order_create_terms:
  assumes "limit_order_create_validate op = Inr ()"
    and "asset_amount (loc_amount_to_sell op) \<le> int64_max" "asset_amount (loc_min_to_receive op) \<le> int64_max"
    and "fund_symbol (asset_symbol (loc_amount_to_sell op))" "fund_symbol (asset_symbol (loc_min_to_receive op))"
  shows "terms_ok (loc_amount_to_sell op) (mk_price (loc_amount_to_sell op) (loc_min_to_receive op))"
  using assms
  by (auto simp: limit_order_create_validate_def price_make_def price_validate_def terms_ok_def price_ok_def result_simps)

lemma limit_order_create2_terms:
  assumes v: "limit_order_create2_validate op = Inr ()"
    and r: "asset_amount (base (loc2_exchange_rate op)) \<le> int64_max" "asset_amount (quote (loc2_exchange_rate op)) \<le> int64_max"
      "0 \<le> asset_amount (loc2_amount_to_sell op)" "asset_amount (loc2_amount_to_sell op) \<le> int64_max"
    and f: "fund_symbol (asset_symbol (base (loc2_exchange_rate op)))" "fund_symbol (asset_symbol (quote (loc2_exchange_rate op)))"
  shows "terms_ok (loc2_amount_to_sell op) (loc2_exchange_rate op)"
proof -
  let ?p = "loc2_exchange_rate op" and ?a = "loc2_amount_to_sell op"
  have p: "price_ok ?p" and s: "asset_symbol ?a = asset_symbol (base ?p)"
    using v r by (auto simp: limit_order_create2_validate_def price_ok_def result_simps)
  obtain x where x: "asset_mul_price ?a ?p = Inr x" "0 < asset_amount x"
    using v by (auto simp: limit_order_create2_validate_def result_simps)
  then have "mul_div_result (asset_amount ?a) (asset_amount (quote ?p)) (asset_amount (base ?p)) (asset_symbol (quote ?p)) = Inr x"
    using asset_mul_price_nonneg [OF p r(3,4)] s by simp
  then have q: "0 < asset_amount ?a * asset_amount (quote ?p) div asset_amount (base ?p)"
    "asset_amount ?a * asset_amount (quote ?p) div asset_amount (base ?p) \<le> int64_max"
    using x(2) by (auto simp: mul_div_result_def Let_def split: if_splits)
  then have "asset_amount ?a \<noteq> 0" by auto
  then show ?thesis using p q r f by (simp add: terms_ok_def)
qed

definition wrapping_order :: limit_order_create2_operation where
  "wrapping_order = \<lparr>loc2_owner = ''alice'', loc2_orderid = 1, loc2_amount_to_sell = mk_asset (- 1000000000000) HBD_SYMBOL,
     loc2_fill_or_kill = False, loc2_exchange_rate = mk_price (mk_asset 1 HBD_SYMBOL) (mk_asset 10000000 HIVE_SYMBOL),
     loc2_expiration = head_block_time sample_db + 60\<rparr>"


end
