(* ===== verification/Conversions.thy ===== *)
theory Conversions
  imports Transfers
begin

text \<open>
  Conversions between HBD and HIVE: \<open>convert_evaluator\<close> and \<open>collateralized_convert_evaluator\<close> of
  \<open>hive_evaluator.cpp\<close>, and \<open>process_conversions\<close>, \<open>calculate_HBD_percent\<close> and
  \<open>update_virtual_supply\<close> of \<open>database.cpp\<close>. The two loops of \<open>process_conversions\<close> carry the net
  change of the supplies, which is applied to the counters at the end. The lemmas show that no
  funds appear or vanish: what a conversion burns and creates is what the counters record.
\<close>

section \<open>Operations\<close>

record convert_operation =
  co_owner :: string
  co_requestid :: int
  co_amount :: asset

record collateralized_convert_operation =
  cc_owner :: string
  cc_requestid :: int
  cc_amount :: asset

definition HIVE_1_PERCENT :: int where "HIVE_1_PERCENT = HIVE_100_PERCENT div 100"
definition HIVE_BLOCK_INTERVAL :: int where "HIVE_BLOCK_INTERVAL = 3"
definition HIVE_FEED_INTERVAL_BLOCKS :: int where "HIVE_FEED_INTERVAL_BLOCKS = 60 * 60 div HIVE_BLOCK_INTERVAL"
definition HIVE_FEED_HISTORY_WINDOW :: int where "HIVE_FEED_HISTORY_WINDOW = 12 * 7"
definition HIVE_CONVERSION_DELAY_PRE_HF_16 :: int where
  "HIVE_CONVERSION_DELAY_PRE_HF_16 = 2 * HIVE_FEED_HISTORY_WINDOW * HIVE_FEED_INTERVAL_BLOCKS * HIVE_BLOCK_INTERVAL"
definition HIVE_CONVERSION_DELAY :: int where
  "HIVE_CONVERSION_DELAY = HIVE_FEED_HISTORY_WINDOW * HIVE_FEED_INTERVAL_BLOCKS * HIVE_BLOCK_INTERVAL"
definition HIVE_COLLATERALIZED_CONVERSION_DELAY :: int where "HIVE_COLLATERALIZED_CONVERSION_DELAY = HIVE_CONVERSION_DELAY"
definition HIVE_CONVERSION_COLLATERAL_RATIO :: int where "HIVE_CONVERSION_COLLATERAL_RATIO = 2 * HIVE_100_PERCENT"
definition HIVE_COLLATERALIZED_CONVERSION_FEE :: int where "HIVE_COLLATERALIZED_CONVERSION_FEE = 5 * HIVE_1_PERCENT"

definition convert_validate :: "convert_operation \<Rightarrow> unit result" where
  "convert_validate op =
     rbind (validate_account_name (co_owner op)) (\<lambda>_.
     fc_assert (asset_symbol (co_amount op) = HBD_SYMBOL) ''Can only convert HBD to HIVE''
     (fc_assert (asset_amount (co_amount op) > 0) ''Must convert some HBD'' (Inr ())))"

definition collateralized_convert_validate :: "collateralized_convert_operation \<Rightarrow> unit result" where
  "collateralized_convert_validate op =
     rbind (validate_account_name (cc_owner op)) (\<lambda>_.
     fc_assert (asset_symbol (cc_amount op) = HIVE_SYMBOL) ''Can only convert HIVE to HBD''
     (fc_assert (asset_amount (cc_amount op) > 0) ''Must convert some HIVE'' (Inr ())))"

section \<open>The debt ratio\<close>

definition get_hardfork :: "chain_db \<Rightarrow> nat" where
  "get_hardfork db = processed_hardforks db - 1"

definition get_treasury_name :: "nat \<Rightarrow> string" where
  "get_treasury_name hardfork = (if hardfork \<ge> 24 then NEW_HIVE_TREASURY_ACCOUNT else OBSOLETE_TREASURY_ACCOUNT)"

definition get_treasury :: "chain_db \<Rightarrow> account_object result" where
  "get_treasury db = get_account db (get_treasury_name (get_hardfork db))"

text \<open>A value of type \<open>tiny_asset\<close> is its amount; converting an asset to it checks the symbol.\<close>

definition to_tiny :: "asset_symbol_type \<Rightarrow> asset \<Rightarrow> int result" where
  "to_tiny s a = fc_assert (asset_symbol a = s) ''val.symbol.asset_num == _SYMBOL'' (Inr (asset_amount a))"

definition calculate_HBD_percent :: "chain_db \<Rightarrow> int result" where
  "calculate_HBD_percent db =
     (let median_price = current_median_history (feed_history db); g = gpo db in
      if price_is_null median_price then Inr 0
      else
        rbind (if has_hardfork db 24 then
                 rbind (get_treasury db) (\<lambda>t.
                 rbind (ssub (current_hbd_supply g) (hbd_balance t)) (\<lambda>h.
                 let hbd_supply = (if h < 0 then 0 else h) in
                 rbind (asset_mul_price (mk_asset hbd_supply HBD_SYMBOL) median_price) (\<lambda>v.
                 rbind (asset_add v (mk_asset (current_supply g) HIVE_SYMBOL)) (\<lambda>v.
                 rbind (to_tiny HIVE_SYMBOL v) (\<lambda>v. Inr (hbd_supply, v))))))
               else Inr (current_hbd_supply g, virtual_supply g)) (\<lambda>(hbd_supply, virtual_supply).
        rbind (asset_mul_price (mk_asset hbd_supply HBD_SYMBOL) median_price) (\<lambda>v.
        let hbd_as_hive = cast_u128 (cast_u128 (asset_amount v) * HIVE_100_PERCENT);
            hbd_as_hive = (if has_hardfork db 21 then cast_u128 (hbd_as_hive + cast_u128 (virtual_supply sdiv 2)) else hbd_as_hive) in
        rbind (u128_div hbd_as_hive (cast_u128 virtual_supply)) (\<lambda>r.
        rbind (uint128_to_uint64 r) (\<lambda>r. Inr (cast_u16 r))))))"

definition update_virtual_supply :: "chain_db \<Rightarrow> chain_db result" where
  "update_virtual_supply db =
     (let median_price = current_median_history (feed_history db); g = gpo db in
      rbind (if price_is_null median_price then Inr (mk_asset 0 HIVE_SYMBOL)
             else asset_mul_price (mk_asset (current_hbd_supply g) HBD_SYMBOL) median_price) (\<lambda>v.
      rbind (asset_add (mk_asset (current_supply g) HIVE_SYMBOL) v) (\<lambda>v.
      let db = modify_gpo (\<lambda>g. g\<lparr>virtual_supply := asset_amount v\<rparr>) db in
      if \<not> price_is_null median_price \<and> has_hardfork db 14 then
        rbind (calculate_HBD_percent db) (\<lambda>percent_hbd.
          Inr (modify_gpo (\<lambda>g. g\<lparr>hbd_print_rate :=
            (if percent_hbd \<ge> hbd_stop_percent g then 0
             else if percent_hbd \<le> hbd_start_percent g then HIVE_100_PERCENT
             else cast_u16 ((hbd_stop_percent g - percent_hbd) * HIVE_100_PERCENT div (hbd_stop_percent g - hbd_start_percent g)))\<rparr>) db))
      else Inr db)))"

section \<open>Evaluators\<close>

definition convert_apply :: "convert_operation \<Rightarrow> chain_db \<Rightarrow> chain_db result" where
  "convert_apply op db =
     rbind (get_account db (co_owner op)) (\<lambda>owner.
     rbind (asset_neg (co_amount op)) (\<lambda>neg.
     rbind (adjust_balance db (co_owner op) neg) (\<lambda>db.
     fc_assert (\<not> price_is_null (current_median_history (feed_history db))) ''Cannot convert HBD because there is no price feed.''
     (let delay = (if has_hardfork db 16 then HIVE_CONVERSION_DELAY else HIVE_CONVERSION_DELAY_PRE_HF_16) in
      rbind (to_tiny HBD_SYMBOL (co_amount op)) (\<lambda>amount.
      rbind (tbl_emplace convert_key
               \<lparr>cr_owner = acc_id owner, cr_amount = amount, cr_requestid = co_requestid op,
                cr_conversion_date = cast_u32 (head_block_time db + delay)\<rparr> (convert_requests db)) (\<lambda>rs.
        Inr (db\<lparr>convert_requests := rs\<rparr>)))))))"

definition collateralized_convert_apply :: "collateralized_convert_operation \<Rightarrow> chain_db \<Rightarrow> chain_db result" where
  "collateralized_convert_apply op db =
     fc_assert (has_hardfork db 25) ''Operation not available until HF25''
     (rbind (get_account db (cc_owner op)) (\<lambda>owner.
      rbind (asset_neg (cc_amount op)) (\<lambda>neg.
      rbind (adjust_balance db (cc_owner op) neg) (\<lambda>db.
      let fhistory = feed_history db in
      fc_assert (\<not> price_is_null (current_median_history fhistory)) ''Cannot convert HIVE because there is no price feed.''
      (fc_assert (hbd_print_rate (gpo db) > 0) ''Creation of new HBD blocked at this time due to global limit.''
      (rbind (uint128_to_uint64 (cast_u128 (cast_u128 (asset_amount (cc_amount op)) * HIVE_100_PERCENT) div HIVE_CONVERSION_COLLATERAL_RATIO)) (\<lambda>a.
       rbind (multiply_with_fee (mk_asset (cast_i64 a) (asset_symbol (cc_amount op))) (current_min_history fhistory)
                HIVE_COLLATERALIZED_CONVERSION_FEE HIVE_SYMBOL) (\<lambda>converted.
       fc_assert (asset_amount converted > 0) ''Amount of collateral too low - conversion gives no HBD''
       (rbind (adjust_balance db (cc_owner op) converted) (\<lambda>db.
        rbind (to_tiny HBD_SYMBOL converted) (\<lambda>c.
        rbind (sadd (current_hbd_supply (gpo db)) c) (\<lambda>hbd.
        rbind (asset_mul_price converted (current_median_history fhistory)) (\<lambda>v.
        rbind (to_tiny HIVE_SYMBOL v) (\<lambda>v.
        rbind (sadd (virtual_supply (gpo db)) v) (\<lambda>vs.
        let db = modify_gpo (\<lambda>g. g\<lparr>current_hbd_supply := hbd, virtual_supply := vs\<rparr>) db in
        rbind (calculate_HBD_percent db) (\<lambda>percent_hbd.
        fc_assert (percent_hbd \<le> hbd_stop_percent (gpo db)) ''Creation of new HBD violates global limit.''
        (rbind (to_tiny HIVE_SYMBOL (cc_amount op)) (\<lambda>collateral.
         rbind (tbl_emplace collateralized_key
                  \<lparr>ccr_owner = acc_id owner, collateral_amount = collateral, converted_amount = c, ccr_requestid = cc_requestid op,
                   ccr_conversion_date = cast_u32 (head_block_time db + HIVE_COLLATERALIZED_CONVERSION_DELAY)\<rparr>
                  (collateralized_convert_requests db)) (\<lambda>rs.
           Inr (db\<lparr>collateralized_convert_requests := rs\<rparr>))))))))))))))))))))"

section \<open>Due requests\<close>

definition remove_convert :: "nat \<times> int \<Rightarrow> chain_db \<Rightarrow> chain_db" where
  "remove_convert k db = db\<lparr>convert_requests := tbl_remove convert_key k (convert_requests db)\<rparr>"

definition remove_collateralized :: "nat \<times> int \<Rightarrow> chain_db \<Rightarrow> chain_db" where
  "remove_collateralized k db = db\<lparr>collateralized_convert_requests := tbl_remove collateralized_key k (collateralized_convert_requests db)\<rparr>"

definition fill_convert :: "convert_request_object \<Rightarrow> chain_db \<Rightarrow> asset \<Rightarrow> asset \<Rightarrow> (chain_db \<times> asset \<times> asset) result" where
  "fill_convert r db net_hbd net_hive =
     (let amount = mk_asset (cr_amount r) HBD_SYMBOL in
      rbind (asset_mul_price amount (current_median_history (feed_history db))) (\<lambda>amount_to_issue.
      rbind (get_account_by_id db (cr_owner r)) (\<lambda>owner.
      rbind (adjust_balance db (acc_name owner) amount_to_issue) (\<lambda>db.
      rbind (asset_sub net_hbd amount) (\<lambda>net_hbd.
      rbind (asset_add net_hive amount_to_issue) (\<lambda>net_hive.
        Inr (remove_convert (convert_key r) db, net_hbd, net_hive)))))))"

definition fill_collateralized :: "collateralized_convert_request_object \<Rightarrow> chain_db \<Rightarrow> asset \<Rightarrow> (chain_db \<times> asset) result" where
  "fill_collateralized r db net_hive =
     rbind (get_account_by_id db (ccr_owner r)) (\<lambda>owner.
     rbind (multiply_with_fee (mk_asset (converted_amount r) HBD_SYMBOL) (market_median_history (feed_history db))
              HIVE_COLLATERALIZED_CONVERSION_FEE HIVE_SYMBOL) (\<lambda>required_hive.
     let collateral = mk_asset (collateral_amount r) HIVE_SYMBOL in
     rbind (asset_sub collateral required_hive) (\<lambda>excess.
     rbind (if asset_amount excess < 0 then Inr (collateral, db)
            else rbind (adjust_balance db (acc_name owner) excess) (\<lambda>db. Inr (required_hive, db))) (\<lambda>(required_hive, db).
     rbind (asset_sub net_hive required_hive) (\<lambda>net_hive.
       Inr (remove_collateralized (collateralized_key r) db, net_hive))))))"

lemma fill_convert_shrinks:
  assumes "fill_convert r db h v = Inr (db', h', v')" "r \<in> set (convert_requests db)"
  shows "length (convert_requests db') < length (convert_requests db)"
proof -
  have "tbl_find convert_key (convert_key r) (convert_requests db) \<noteq> None"
    using assms(2) by (auto simp: tbl_find_none)
  then have "on_ok (fill_convert r db h v) (\<lambda>(db', _). length (convert_requests db') < length (convert_requests db))"
    unfolding fill_convert_def Let_def
    by (intro wp) (auto simp: remove_convert_def moves_def same_objects_def intro: length_tbl_remove)
  then show ?thesis using assms(1) by (auto dest: on_okD)
qed

lemma fill_collateralized_shrinks:
  assumes "fill_collateralized r db v = Inr (db', v')" "r \<in> set (collateralized_convert_requests db)"
  shows "length (collateralized_convert_requests db') < length (collateralized_convert_requests db)"
proof -
  have "tbl_find collateralized_key (collateralized_key r) (collateralized_convert_requests db) \<noteq> None"
    using assms(2) by (auto simp: tbl_find_none)
  then have "on_ok (fill_collateralized r db v)
      (\<lambda>(db', _). length (collateralized_convert_requests db') < length (collateralized_convert_requests db))"
    unfolding fill_collateralized_def Let_def
    by (intro wp on_okI [of "multiply_with_fee _ _ _ _"])
      (auto simp: remove_collateralized_def moves_def same_objects_def intro: length_tbl_remove)
  then show ?thesis using assms(1) by (auto dest: on_okD)
qed

function convert_loop :: "int \<Rightarrow> chain_db \<Rightarrow> asset \<Rightarrow> asset \<Rightarrow> (chain_db \<times> asset \<times> asset) result" where
  "convert_loop now db net_hbd net_hive =
     (case tbl_begin cr_conversion_date (convert_requests db) of
        None \<Rightarrow> Inr (db, net_hbd, net_hive)
      | Some r \<Rightarrow>
          if cr_conversion_date r \<le> now then
            rbind (fill_convert r db net_hbd net_hive) (\<lambda>(db, net_hbd, net_hive). convert_loop now db net_hbd net_hive)
          else Inr (db, net_hbd, net_hive))"
  by pat_completeness auto
termination
  by (relation "measure (\<lambda>(_, db, _). length (convert_requests db))") (auto dest: tbl_begin_set fill_convert_shrinks)

function collateralized_loop :: "int \<Rightarrow> chain_db \<Rightarrow> asset \<Rightarrow> (chain_db \<times> asset) result" where
  "collateralized_loop now db net_hive =
     (case tbl_begin ccr_conversion_date (collateralized_convert_requests db) of
        None \<Rightarrow> Inr (db, net_hive)
      | Some r \<Rightarrow>
          if ccr_conversion_date r \<le> now then
            rbind (fill_collateralized r db net_hive) (\<lambda>(db, net_hive). collateralized_loop now db net_hive)
          else Inr (db, net_hive))"
  by pat_completeness auto
termination
  by (relation "measure (\<lambda>(_, db, _). length (collateralized_convert_requests db))")
    (auto dest: tbl_begin_set fill_collateralized_shrinks)

declare convert_loop.simps [simp del] collateralized_loop.simps [simp del]

definition correct_supply :: "chain_db \<Rightarrow> asset \<Rightarrow> asset \<Rightarrow> chain_db result" where
  "correct_supply db net_hbd net_hive =
     (if asset_amount net_hive \<noteq> 0 \<or> asset_amount net_hbd \<noteq> 0 then
        rbind (to_tiny HIVE_SYMBOL net_hive) (\<lambda>hive.
        rbind (sadd (current_supply (gpo db)) hive) (\<lambda>cs.
        rbind (to_tiny HBD_SYMBOL net_hbd) (\<lambda>hbd.
        rbind (sadd (current_hbd_supply (gpo db)) hbd) (\<lambda>chs.
        rbind (sadd (virtual_supply (gpo db)) hive) (\<lambda>vs.
        rbind (asset_mul_price net_hbd (current_median_history (feed_history db))) (\<lambda>v.
        rbind (to_tiny HIVE_SYMBOL v) (\<lambda>v.
        rbind (sadd vs v) (\<lambda>vs.
          Inr (modify_gpo (\<lambda>g. g\<lparr>current_supply := cs, current_hbd_supply := chs, virtual_supply := vs\<rparr>) db)))))))))
      else Inr db)"

definition process_conversions :: "chain_db \<Rightarrow> chain_db result" where
  "process_conversions db =
     (if price_is_null (current_median_history (feed_history db)) then Inr db
      else
        rbind (convert_loop (head_block_time db) db (mk_asset 0 HBD_SYMBOL) (mk_asset 0 HIVE_SYMBOL)) (\<lambda>(db, net_hbd, net_hive).
        rbind (collateralized_loop (head_block_time db) db net_hive) (\<lambda>(db, net_hive).
          correct_supply db net_hbd net_hive)))"

section \<open>Conservation of funds\<close>

lemma convert_gaps:
  "tbl_find convert_key k (convert_requests db) = Some r \<Longrightarrow>
     gap s (remove_convert k db) = gap s db - asset_of s (mk_asset (cr_amount r) HBD_SYMBOL)"
  "tbl_find collateralized_key k (collateralized_convert_requests db) = Some cr \<Longrightarrow>
     gap s (remove_collateralized k db) = gap s db - asset_of s (mk_asset (collateral_amount cr) HIVE_SYMBOL)"
  "gap s (db\<lparr>convert_requests := convert_requests db @ [r]\<rparr>) = gap s db + asset_of s (mk_asset (cr_amount r) HBD_SYMBOL)"
  "gap s (db\<lparr>collateralized_convert_requests := collateralized_convert_requests db @ [cr]\<rparr>)
     = gap s db + asset_of s (mk_asset (collateral_amount cr) HIVE_SYMBOL)"
  by (simp_all add: gap_def object_funds_def remove_convert_def remove_collateralized_def total_remove)

lemma convert_frames [simp]:
  "pending_gap (remove_convert k db) = pending_gap db" "pending_gap (remove_collateralized k db) = pending_gap db"
  "pending_gap (db\<lparr>convert_requests := rs\<rparr>) = pending_gap db"
  "pending_gap (db\<lparr>collateralized_convert_requests := crs\<rparr>) = pending_gap db"
  "accounts (remove_convert k db) = accounts db" "accounts (remove_collateralized k db) = accounts db"
  "head_block_time (remove_convert k db) = head_block_time db" "head_block_time (remove_collateralized k db) = head_block_time db"
  "head_block_time (db\<lparr>convert_requests := rs\<rparr>) = head_block_time db"
  "head_block_time (db\<lparr>collateralized_convert_requests := crs\<rparr>) = head_block_time db"
  "feed_history (remove_convert k db) = feed_history db" "feed_history (remove_collateralized k db) = feed_history db"
  "processed_hardforks (remove_convert k db) = processed_hardforks db"
  "processed_hardforks (remove_collateralized k db) = processed_hardforks db"
  by (simp_all add: pending_gap_def remove_convert_def remove_collateralized_def head_block_time_def)

lemma objects_ok_converts:
  "objects_ok db \<Longrightarrow> objects_ok (remove_convert k db)"
  "objects_ok db \<Longrightarrow> objects_ok (remove_collateralized k db)"
  "objects_ok db \<Longrightarrow> tbl_find convert_key (convert_key r) (convert_requests db) = None \<Longrightarrow> 0 \<le> cr_amount r \<Longrightarrow>
     objects_ok (db\<lparr>convert_requests := convert_requests db @ [r]\<rparr>)"
  "objects_ok db \<Longrightarrow> tbl_find collateralized_key (collateralized_key cr) (collateralized_convert_requests db) = None \<Longrightarrow>
     0 \<le> collateral_amount cr \<Longrightarrow> 0 \<le> converted_amount cr \<Longrightarrow>
     objects_ok (db\<lparr>collateralized_convert_requests := collateralized_convert_requests db @ [cr]\<rparr>)"
  by (simp_all add: objects_ok_def remove_convert_def remove_collateralized_def list_all_remove distinct_remove tbl_find_none image_iff)

lemma wp_to_tiny [wp]: "(asset_symbol a = s \<Longrightarrow> Q (asset_amount a)) \<Longrightarrow> on_ok (to_tiny s a) Q"
  unfolding to_tiny_def by (intro wp)

lemma wp_unspecified [wp]:
  "(\<And>x. Q x) \<Longrightarrow> on_ok (calculate_HBD_percent db) Q" "(\<And>x. Q' x) \<Longrightarrow> on_ok (multiply_with_fee a p f s) Q'"
  "(\<And>x. Q x) \<Longrightarrow> on_ok (uint128_to_uint64 n) Q" "(\<And>x. Q x) \<Longrightarrow> on_ok (u128_div m n) Q"
  by (simp_all add: on_ok_def)

lemma asset_of_zero: "asset_of s (mk_asset 0 t) = 0"
  by (simp add: asset_of_def)

lemma convert_step:
  assumes "objects_ok db" "0 \<le> asset_amount (co_amount op)"
  shows "on_ok (convert_apply op db) (ledger_step db)"
  unfolding convert_apply_def Let_def
  by (intro wp; rule moves_object_step, assumption)
    (use assms in \<open>auto simp: convert_gaps objects_ok_converts asset_of_def\<close>)

lemma moves_new_hbd:
  "moves (\<lambda>s. - asset_of s (mk_asset d HBD_SYMBOL)) 0 db
     (modify_gpo (\<lambda>g. g\<lparr>current_hbd_supply := current_hbd_supply (gpo db) + d, virtual_supply := vs\<rparr>) db)"
  by (rule moves_modify_gpo) (auto simp: funds_defs asset_of_def)

lemma collateralized_convert_step:
  assumes ok: "objects_ok db" and a: "0 \<le> asset_amount (cc_amount op)"
  shows "on_ok (collateralized_convert_apply op db) (ledger_step db)"
  unfolding collateralized_convert_apply_def Let_def
proof (intro wp, goal_cases)
  case (1 a neg db1 x conv db2 v pct)
  let ?db3 = "modify_gpo (\<lambda>g. g\<lparr>current_hbd_supply := current_hbd_supply (gpo db2) + asset_amount conv,
    virtual_supply := virtual_supply (gpo db2) + asset_amount v\<rparr>) db2"
  have m: "moves (\<lambda>s. - asset_of s (cc_amount op)) 0 db ?db3"
  proof (rule moves_sum [OF moves_trans [OF 1(6,10)] moves_new_hbd])
    have "mk_asset (asset_amount conv) HBD_SYMBOL = conv" using 1(11) by (cases conv) simp
    then show "asset_of s neg + asset_of s conv + - asset_of s (mk_asset (asset_amount conv) HBD_SYMBOL) = - asset_of s (cc_amount op)" for s
      using 1(3) by simp
  qed simp
  show ?case
    by (rule moves_object_step [OF m ok]) (use 1(9,15,16) a in \<open>simp_all add: convert_gaps objects_ok_converts asset_of_def\<close>)
qed

lemma fill_convert_shift:
  assumes ok: "objects_ok db" and r: "r \<in> set (convert_requests db)"
  shows "on_ok (fill_convert r db h v) (\<lambda>(db', h', v').
    ledger_shift (\<lambda>s. asset_of s h' + asset_of s v' - asset_of s h - asset_of s v) db db')"
  unfolding fill_convert_def Let_def
proof (intro wp, unfold prod.case, goal_cases)
  case (1 a x db1 h' v')
  then show ?case
    using objects_ok_find(4) [OF ok r]
    by (intro moves_object_shift [OF 1(3) ok]) (simp_all add: convert_gaps objects_ok_converts moves_def same_objects_def)
qed

lemma fill_collateralized_shift:
  assumes ok: "objects_ok db" and r: "r \<in> set (collateralized_convert_requests db)"
  shows "on_ok (fill_collateralized r db v) (\<lambda>(db', v'). ledger_shift (\<lambda>s. asset_of s v' - asset_of s v) db db')"
  unfolding fill_collateralized_def Let_def
proof (intro wp, goal_cases)
  case (1 a x e req db1 v')
  then have eq: "db1 = db" "req = mk_asset (collateral_amount r) HIVE_SYMBOL" by simp_all
  show ?case
    unfolding prod.case eq using objects_ok_find(5) [OF ok r] 1(8)
    by (intro moves_object_shift [OF moves_refl ok]) (simp_all add: convert_gaps objects_ok_converts eq)
next
  case (2 a x e db1 req db2 v')
  then have eq: "db2 = db1" "req = x" by simp_all
  show ?case
    unfolding prod.case eq using objects_ok_find(5) [OF ok r] 2(2,7,9)
    by (intro moves_object_shift [OF 2(7) ok]) (simp_all add: convert_gaps objects_ok_converts eq moves_def same_objects_def)
qed

lemma convert_loop_shift:
  "objects_ok db \<Longrightarrow> on_ok (convert_loop now db h v) (\<lambda>(db', h', v').
    ledger_shift (\<lambda>s. asset_of s h' + asset_of s v' - asset_of s h - asset_of s v) db db')"
proof (induction now db h v rule: convert_loop.induct)
  case (1 now db h v)
  note ok = 1(2) and IH = 1(1)
  have same: "ledger_shift (\<lambda>s. asset_of s h + asset_of s v - asset_of s h - asset_of s v) db db"
    using ok by (simp add: ledger_shift_def)
  show ?case
  proof (subst convert_loop.simps, intro wp, unfold prod.case, goal_cases)
    case (2 r)
    show ?case
    proof (rule on_okI)
      fix x assume f: "fill_convert r db h v = Inr x"
      obtain db1 h1 v1 where x: "x = (db1, h1, v1)" by (cases x)
      have sh: "ledger_shift (\<lambda>s. asset_of s h1 + asset_of s v1 - asset_of s h - asset_of s v) db db1"
        using on_okD [OF fill_convert_shift [OF ok tbl_begin_set [OF 2(1)]] f] by (simp add: x)
      then have "on_ok (convert_loop now db1 h1 v1) (\<lambda>(db', h', v').
          ledger_shift (\<lambda>s. asset_of s h' + asset_of s v' - asset_of s h1 - asset_of s v1) db1 db')"
        using IH [OF 2 f x [symmetric] refl] by (simp add: ledger_shift_def)
      then show "on_ok (case x of (db, h, v) \<Rightarrow> convert_loop now db h v) (\<lambda>(db', h', v').
          ledger_shift (\<lambda>s. asset_of s h' + asset_of s v' - asset_of s h - asset_of s v) db db')"
        unfolding x prod.case by (rule on_ok_mono) (auto intro: ledger_shift_trans [OF sh])
    qed
  qed (rule same)+
qed

lemma collateralized_loop_shift:
  "objects_ok db \<Longrightarrow> on_ok (collateralized_loop now db v) (\<lambda>(db', v'). ledger_shift (\<lambda>s. asset_of s v' - asset_of s v) db db')"
proof (induction now db v rule: collateralized_loop.induct)
  case (1 now db v)
  note ok = 1(2) and IH = 1(1)
  have same: "ledger_shift (\<lambda>s. asset_of s v - asset_of s v) db db"
    using ok by (simp add: ledger_shift_def)
  show ?case
  proof (subst collateralized_loop.simps, intro wp, unfold prod.case, goal_cases)
    case (2 r)
    show ?case
    proof (rule on_okI)
      fix x assume f: "fill_collateralized r db v = Inr x"
      obtain db1 v1 where x: "x = (db1, v1)" by (cases x)
      have sh: "ledger_shift (\<lambda>s. asset_of s v1 - asset_of s v) db db1"
        using on_okD [OF fill_collateralized_shift [OF ok tbl_begin_set [OF 2(1)]] f] by (simp add: x)
      then have "on_ok (collateralized_loop now db1 v1) (\<lambda>(db', v'). ledger_shift (\<lambda>s. asset_of s v' - asset_of s v1) db1 db')"
        using IH [OF 2 f x [symmetric]] by (simp add: ledger_shift_def)
      then show "on_ok (case x of (db, v) \<Rightarrow> collateralized_loop now db v) (\<lambda>(db', v'). ledger_shift (\<lambda>s. asset_of s v' - asset_of s v) db db')"
        unfolding x prod.case by (rule on_ok_mono) (auto intro: ledger_shift_trans [OF sh])
    qed
  qed (rule same)+
qed

lemma correct_supply_shift:
  assumes "objects_ok db"
  shows "on_ok (correct_supply db h v) (ledger_shift (\<lambda>s. - asset_of s h - asset_of s v) db)"
  unfolding correct_supply_def
proof (intro wp, goal_cases)
  case (1 x)
  have "moves (\<lambda>s. - asset_of s h - asset_of s v) 0 db (modify_gpo (\<lambda>g. g\<lparr>current_supply := current_supply (gpo db) + asset_amount v,
      current_hbd_supply := current_hbd_supply (gpo db) + asset_amount h,
      virtual_supply := virtual_supply (gpo db) + asset_amount v + asset_amount x\<rparr>) db)"
    using 1 by (intro moves_modify_gpo) (auto simp: funds_defs asset_of_def)
  then show ?case using assms by (intro moves_object_shift) simp_all
next
  case 2
  then show ?case using assms by (auto simp: ledger_shift_def asset_of_def)
qed

lemma process_conversions_step:
  assumes ok: "objects_ok db"
  shows "on_ok (process_conversions db) (ledger_step db)"
  unfolding process_conversions_def
proof (intro wp_if wp_Inr ledger_step_refl ok on_ok_rbind [OF convert_loop_shift], goal_cases)
  case (1 x)
  obtain db1 h1 v1 where x: "x = (db1, h1, v1)" by (cases x)
  have sh: "ledger_shift (\<lambda>s. asset_of s h1 + asset_of s v1) db db1"
    using 1(2) by (simp add: x asset_of_zero)
  then have ok1: "objects_ok db1" by (simp add: ledger_shift_def)
  show ?case
    unfolding x prod.case
  proof (rule on_ok_rbind [OF collateralized_loop_shift [OF ok1]], goal_cases)
    case (1 y)
    obtain db2 v2 where y: "y = (db2, v2)" by (cases y)
    have "ledger_shift (\<lambda>s. asset_of s v2 - asset_of s v1) db1 db2" using 1 by (simp add: y)
    then have sh2: "ledger_shift (\<lambda>s. asset_of s h1 + asset_of s v2) db db2"
      by (rule ledger_shift_trans [OF sh]) simp
    then have "objects_ok db2" by (simp add: ledger_shift_def)
    then show ?case
      unfolding y prod.case ledger_step_shift
      by (rule on_ok_mono [OF correct_supply_shift]) (rule ledger_shift_trans [OF sh2], assumption, simp)
  qed
qed

section \<open>Every due request is served\<close>

lemma tbl_begin_min: "tbl_begin key xs = Some x \<Longrightarrow> y \<in> set xs \<Longrightarrow> key x \<le> key y"
proof -
  assume x: "tbl_begin key xs = Some x" and y: "y \<in> set xs"
  then obtain ys where s: "sort_key key xs = x # ys" by (auto simp: tbl_begin_def split: list.splits)
  have "sorted (map key (x # ys))" using sorted_sort_key [of key xs] by (simp add: s)
  moreover have "y \<in> set (x # ys)" using y by (metis s set_sort)
  ultimately show ?thesis by auto
qed

lemma tbl_begin_None: "tbl_begin key xs = None \<longleftrightarrow> xs = []"
  by (auto simp: tbl_begin_def split: list.splits) (metis length_0_conv length_sort list.size(3))

lemma filter_tbl_remove:
  "tbl_find key k xs = Some x \<Longrightarrow> \<not> P x \<Longrightarrow> filter P (tbl_remove key k xs) = filter P xs"
  by (induction xs) (auto split: if_splits)

lemma fill_convert_tables:
  assumes "r \<in> set (convert_requests db)"
  shows "on_ok (fill_convert r db h v) (\<lambda>(db', _). convert_requests db' = tbl_remove convert_key (convert_key r) (convert_requests db)
    \<and> collateralized_convert_requests db' = collateralized_convert_requests db)"
  unfolding fill_convert_def Let_def
  by (intro wp) (auto simp: remove_convert_def moves_def same_objects_def)

lemma fill_collateralized_tables:
  assumes "r \<in> set (collateralized_convert_requests db)"
  shows "on_ok (fill_collateralized r db v) (\<lambda>(db', _). convert_requests db' = convert_requests db
    \<and> collateralized_convert_requests db' = tbl_remove collateralized_key (collateralized_key r) (collateralized_convert_requests db))"
  unfolding fill_collateralized_def Let_def
  by (intro wp) (auto simp: remove_collateralized_def moves_def same_objects_def)

lemma convert_loop_due:
  "objects_ok db \<Longrightarrow> on_ok (convert_loop now db h v) (\<lambda>(db', _).
     convert_requests db' = filter (\<lambda>r. now < cr_conversion_date r) (convert_requests db)
     \<and> collateralized_convert_requests db' = collateralized_convert_requests db)"
proof (induction now db h v rule: convert_loop.induct)
  case (1 now db h v)
  note ok = 1(2) and IH = 1(1)
  show ?case
  proof (subst convert_loop.simps, intro wp, unfold prod.case, goal_cases)
    case (2 r)
    have r: "r \<in> set (convert_requests db)" by (rule tbl_begin_set [OF 2(1)])
    show ?case
    proof (rule on_okI)
      fix x assume f: "fill_convert r db h v = Inr x"
      obtain db1 h1 v1 where x: "x = (db1, h1, v1)" by (cases x)
      have "objects_ok db1" using on_okD [OF fill_convert_shift [OF ok r] f] by (simp add: x ledger_shift_def)
      note IH [OF 2 f x [symmetric] refl this]
      moreover have "filter (\<lambda>r. now < cr_conversion_date r) (convert_requests db1) = filter (\<lambda>r. now < cr_conversion_date r) (convert_requests db)"
        "collateralized_convert_requests db1 = collateralized_convert_requests db"
        using on_okD [OF fill_convert_tables [OF r] f] 2(2) filter_tbl_remove [OF objects_ok_find(4) [OF ok r]] by (simp_all add: x)
      ultimately show "on_ok (case x of (db, h, v) \<Rightarrow> convert_loop now db h v) (\<lambda>(db', _).
          convert_requests db' = filter (\<lambda>r. now < cr_conversion_date r) (convert_requests db)
          \<and> collateralized_convert_requests db' = collateralized_convert_requests db)"
        by (simp add: x)
    qed
  qed (auto simp: tbl_begin_None intro!: filter_True [symmetric] dest: tbl_begin_min)
qed

lemma collateralized_loop_due:
  "objects_ok db \<Longrightarrow> on_ok (collateralized_loop now db v) (\<lambda>(db', _). convert_requests db' = convert_requests db
     \<and> collateralized_convert_requests db' = filter (\<lambda>r. now < ccr_conversion_date r) (collateralized_convert_requests db))"
proof (induction now db v rule: collateralized_loop.induct)
  case (1 now db v)
  note ok = 1(2) and IH = 1(1)
  show ?case
  proof (subst collateralized_loop.simps, intro wp, unfold prod.case, goal_cases)
    case (2 r)
    have r: "r \<in> set (collateralized_convert_requests db)" by (rule tbl_begin_set [OF 2(1)])
    show ?case
    proof (rule on_okI)
      fix x assume f: "fill_collateralized r db v = Inr x"
      obtain db1 v1 where x: "x = (db1, v1)" by (cases x)
      have "objects_ok db1" using on_okD [OF fill_collateralized_shift [OF ok r] f] by (simp add: x ledger_shift_def)
      note IH [OF 2 f x [symmetric] this]
      moreover have "filter (\<lambda>r. now < ccr_conversion_date r) (collateralized_convert_requests db1)
          = filter (\<lambda>r. now < ccr_conversion_date r) (collateralized_convert_requests db)"
        "convert_requests db1 = convert_requests db"
        using on_okD [OF fill_collateralized_tables [OF r] f] 2(2) filter_tbl_remove [OF objects_ok_find(5) [OF ok r]] by (simp_all add: x)
      ultimately show "on_ok (case x of (db, v) \<Rightarrow> collateralized_loop now db v) (\<lambda>(db', _). convert_requests db' = convert_requests db
          \<and> collateralized_convert_requests db' = filter (\<lambda>r. now < ccr_conversion_date r) (collateralized_convert_requests db))"
        by (simp add: x)
    qed
  qed (auto simp: tbl_begin_None intro!: filter_True [symmetric] dest: tbl_begin_min)
qed


definition sample_conversions :: chain_db where
  "sample_conversions = sample_db\<lparr>
     convert_requests := [\<lparr>cr_owner = 1, cr_amount = 30, cr_requestid = 7, cr_conversion_date = 1700000000\<rparr>,
       \<lparr>cr_owner = 1, cr_amount = 20, cr_requestid = 8, cr_conversion_date = 1700000001\<rparr>],
     collateralized_convert_requests :=
       [\<lparr>ccr_owner = 0, collateral_amount = 100, converted_amount = 15, ccr_requestid = 1, ccr_conversion_date = 1699999999\<rparr>]\<rparr>"


end
