(* ===== verification/Operations.thy ===== *)
theory Operations
  imports Market Conversions
begin

text \<open>
  The operations of the modelled components as one type, with the dispatch to \<open>validate\<close> and to the
  evaluators (\<open>operation\<close> of \<open>operations.hpp\<close>, \<open>initialize_evaluators\<close> of \<open>database.cpp\<close>), the
  processes that \<open>apply_block\<close> runs on the same objects, and the step relation over both. The
  predicates \<open>fc::is_utf8\<close> and \<open>fc::json::is_valid\<close> are parameters.
\<close>

section \<open>Operations\<close>

datatype operation =
    Transfer transfer_operation
  | Escrow_Transfer string escrow_transfer_operation
  | Escrow_Approve escrow_approve_operation
  | Escrow_Dispute escrow_dispute_operation
  | Escrow_Release escrow_release_operation
  | Transfer_To_Savings transfer_to_savings_operation
  | Transfer_From_Savings transfer_from_savings_operation
  | Cancel_Transfer_From_Savings cancel_transfer_from_savings_operation
  | Convert convert_operation
  | Collateralized_Convert collateralized_convert_operation
  | Limit_Order_Create limit_order_create_operation
  | Limit_Order_Create2 limit_order_create2_operation
  | Limit_Order_Cancel limit_order_cancel_operation

fun operation_validate :: "(string \<Rightarrow> bool) \<Rightarrow> (string \<Rightarrow> bool) \<Rightarrow> operation \<Rightarrow> unit result" where
  "operation_validate is_utf8 json_ok (Transfer op) = transfer_validate is_utf8 op"
| "operation_validate is_utf8 json_ok (Escrow_Transfer meta op) = escrow_transfer_validate json_ok meta op"
| "operation_validate is_utf8 json_ok (Escrow_Approve op) = escrow_approve_validate op"
| "operation_validate is_utf8 json_ok (Escrow_Dispute op) = escrow_dispute_validate op"
| "operation_validate is_utf8 json_ok (Escrow_Release op) = escrow_release_validate op"
| "operation_validate is_utf8 json_ok (Transfer_To_Savings op) = transfer_to_savings_validate is_utf8 op"
| "operation_validate is_utf8 json_ok (Transfer_From_Savings op) = transfer_from_savings_validate is_utf8 op"
| "operation_validate is_utf8 json_ok (Cancel_Transfer_From_Savings op) = cancel_transfer_from_savings_validate op"
| "operation_validate is_utf8 json_ok (Convert op) = convert_validate op"
| "operation_validate is_utf8 json_ok (Collateralized_Convert op) = collateralized_convert_validate op"
| "operation_validate is_utf8 json_ok (Limit_Order_Create op) = limit_order_create_validate op"
| "operation_validate is_utf8 json_ok (Limit_Order_Create2 op) = limit_order_create2_validate op"
| "operation_validate is_utf8 json_ok (Limit_Order_Cancel op) = limit_order_cancel_validate op"

text \<open>\<open>head_id4\<close> is the word \<open>_hash[4]\<close> of the head block's id, which only the old limit order reads.\<close>

fun evaluator_apply :: "int \<Rightarrow> operation \<Rightarrow> chain_db \<Rightarrow> chain_db result" where
  "evaluator_apply head_id4 (Transfer op) = transfer_apply op"
| "evaluator_apply head_id4 (Escrow_Transfer meta op) = escrow_transfer_apply op"
| "evaluator_apply head_id4 (Escrow_Approve op) = escrow_approve_apply op"
| "evaluator_apply head_id4 (Escrow_Dispute op) = escrow_dispute_apply op"
| "evaluator_apply head_id4 (Escrow_Release op) = escrow_release_apply op"
| "evaluator_apply head_id4 (Transfer_To_Savings op) = transfer_to_savings_apply op"
| "evaluator_apply head_id4 (Transfer_From_Savings op) = transfer_from_savings_apply op"
| "evaluator_apply head_id4 (Cancel_Transfer_From_Savings op) = cancel_transfer_from_savings_apply op"
| "evaluator_apply head_id4 (Convert op) = convert_apply op"
| "evaluator_apply head_id4 (Collateralized_Convert op) = collateralized_convert_apply op"
| "evaluator_apply head_id4 (Limit_Order_Create op) = limit_order_create_apply head_id4 op"
| "evaluator_apply head_id4 (Limit_Order_Create2 op) = limit_order_create2_apply op"
| "evaluator_apply head_id4 (Limit_Order_Cancel op) = limit_order_cancel_apply op"

section \<open>Steps\<close>

text \<open>
  What the steps assume of an operation beside its validation: the amounts of limit orders are
  within \<open>int64\<close> and in the market of HIVE and HBD, the amount of \<open>limit_order_create2\<close> is not
  negative, and the HIVE a transfer sends to the treasury does not wrap when it is converted.
\<close>

fun op_sane :: "chain_db \<Rightarrow> operation \<Rightarrow> bool" where
  "op_sane db (Transfer op) =
     (case asset_mul_price (tr_amount op) (current_median_history (feed_history db)) of Inl _ \<Rightarrow> True | Inr x \<Rightarrow> 0 \<le> asset_amount x)"
| "op_sane db (Limit_Order_Create op) =
     (asset_amount (loc_amount_to_sell op) \<le> int64_max \<and> asset_amount (loc_min_to_receive op) \<le> int64_max
      \<and> fund_symbol (asset_symbol (loc_amount_to_sell op)) \<and> fund_symbol (asset_symbol (loc_min_to_receive op)))"
| "op_sane db (Limit_Order_Create2 op) =
     (asset_amount (base (loc2_exchange_rate op)) \<le> int64_max \<and> asset_amount (quote (loc2_exchange_rate op)) \<le> int64_max
      \<and> 0 \<le> asset_amount (loc2_amount_to_sell op) \<and> asset_amount (loc2_amount_to_sell op) \<le> int64_max
      \<and> fund_symbol (asset_symbol (base (loc2_exchange_rate op))) \<and> fund_symbol (asset_symbol (quote (loc2_exchange_rate op))))"
| "op_sane db _ = True"

lemma operation_step:
  assumes "operation_validate is_utf8 json_ok op = Inr ()" "op_sane db op" "objects_ok db"
  shows "on_ok (evaluator_apply h op db) (ledger_step db)"
proof (cases op)
  case (Transfer op)
  then show ?thesis using assms by (auto intro!: transfer_step)
next
  case (Escrow_Transfer m op)
  then show ?thesis
    using assms by (auto intro!: escrow_transfer_step simp: escrow_transfer_validate_def fund_symbol_def result_simps)
next
  case (Escrow_Release op)
  then show ?thesis using assms by (auto intro!: escrow_release_step simp: escrow_release_validate_def result_simps)
next
  case (Transfer_From_Savings op)
  then show ?thesis
    using assms by (auto intro!: transfer_from_savings_step
        simp: transfer_from_savings_validate_def savings_amount_validate_def fund_symbol_def result_simps)
next
  case (Convert op)
  then show ?thesis using assms by (auto intro!: convert_step simp: convert_validate_def result_simps)
next
  case (Collateralized_Convert op)
  then show ?thesis
    using assms by (auto intro!: collateralized_convert_step simp: collateralized_convert_validate_def result_simps)
next
  case (Limit_Order_Create op)
  then show ?thesis using assms by (auto intro!: limit_order_create_step limit_order_create_terms)
next
  case (Limit_Order_Create2 op)
  then show ?thesis using assms by (auto intro!: limit_order_create2_step limit_order_create2_terms)
qed (simp_all add: assms escrow_approve_step escrow_dispute_step transfer_to_savings_step
    cancel_transfer_from_savings_step limit_order_cancel_step)

definition block_processes :: "(chain_db \<Rightarrow> chain_db result) list" where
  "block_processes = [clear_expired_orders, process_conversions, process_savings_withdraws, expire_escrow_ratification]"

lemma block_process_step: "p \<in> set block_processes \<Longrightarrow> objects_ok db \<Longrightarrow> on_ok (p db) (ledger_step db)"
  by (auto simp: block_processes_def clear_expired_orders_step process_conversions_step
      process_savings_withdraws_step expire_escrow_ratification_step)

text \<open>A step applies a validated operation, runs one of the processes of a block, or lets time pass.\<close>

inductive chain_step :: "(string \<Rightarrow> bool) \<Rightarrow> (string \<Rightarrow> bool) \<Rightarrow> chain_db \<Rightarrow> chain_db \<Rightarrow> bool"
  for is_utf8 json_ok :: "string \<Rightarrow> bool" where
  operation: "operation_validate is_utf8 json_ok op = Inr () \<Longrightarrow> op_sane db op \<Longrightarrow> evaluator_apply h op db = Inr db'
    \<Longrightarrow> chain_step is_utf8 json_ok db db'"
| process: "p \<in> set block_processes \<Longrightarrow> p db = Inr db' \<Longrightarrow> chain_step is_utf8 json_ok db db'"
| clock: "chain_step is_utf8 json_ok db (modify_gpo (\<lambda>g. g\<lparr>head_block_number := n, gpo_time := t\<rparr>) db)"
| feed: "chain_step is_utf8 json_ok db (db\<lparr>feed_history := f\<rparr>)"

inductive_cases chain_stepE: "chain_step is_utf8 json_ok db db'"

text \<open>The invariant of the ledger, from hardfork 20 on.\<close>

definition ledger_inv :: "chain_db \<Rightarrow> bool" where
  "ledger_inv db \<longleftrightarrow> has_hardfork db 20 \<and> objects_ok db \<and> supply_matches db \<and> accounts_nonneg db"

lemma ledger_step_inv: "ledger_step db db' \<Longrightarrow> ledger_inv db \<Longrightarrow> ledger_inv db'"
  by (simp add: ledger_inv_def ledger_step_def funds_step_def supply_matches_def has_hardfork_def)

lemma ledger_inv_clock: "ledger_inv db \<Longrightarrow> ledger_inv (modify_gpo (\<lambda>g. g\<lparr>head_block_number := n, gpo_time := t\<rparr>) db)"
  by (simp add: ledger_inv_def supply_matches_def gap_modify_gpo pending_gap_modify_gpo funds_defs accounts_nonneg_def
      has_hardfork_def) (simp add: objects_ok_def modify_gpo_def)

lemma ledger_inv_feed: "ledger_inv db \<Longrightarrow> ledger_inv (db\<lparr>feed_history := f\<rparr>)"
  by (simp add: ledger_inv_def supply_matches_def gap_def object_funds_def pending_gap_def accounts_nonneg_def
      has_hardfork_def objects_ok_def)

lemma chain_step_inv: "chain_step is_utf8 json_ok db db' \<Longrightarrow> ledger_inv db \<Longrightarrow> ledger_inv db'"
proof (erule chain_stepE, goal_cases)
  case (1 op h)
  then have "ledger_step db db'"
    using on_okD [OF operation_step [of is_utf8 json_ok op db h]] by (simp add: ledger_inv_def)
  then show ?case using 1(1) by (rule ledger_step_inv)
next
  case (2 p)
  then have "ledger_step db db'"
    using on_okD [OF block_process_step [of p db]] by (simp add: ledger_inv_def)
  then show ?case using 2(1) by (rule ledger_step_inv)
qed (simp_all add: ledger_inv_clock ledger_inv_feed)

end
