(* ===== verification/Side_Tables.thy ===== *)
theory Side_Tables
  imports Balances
begin

text \<open>
  The interface between the ledger and the components that keep other objects: an update of a
  table that holds no funds, and an update of an account that leaves its balances alone, move
  nothing. The locale \<open>side_table\<close> states what the ledger relies on and is interpreted for every
  such table of the database.
\<close>

section \<open>Updates of an account that may throw\<close>

definition try_modify_account :: "string \<Rightarrow> (account_object \<Rightarrow> account_object result) \<Rightarrow> chain_db \<Rightarrow> chain_db result" where
  "try_modify_account name f db =
     rbind (get_account db name) (\<lambda>a. rbind (f a) (\<lambda>a'. Inr (modify_account name (\<lambda>_. a') db)))"

text \<open>\<open>same_money a a'\<close>: the account keeps its identity and all its funds.\<close>

definition same_money :: "account_object \<Rightarrow> account_object \<Rightarrow> bool" where
  "same_money a a' \<longleftrightarrow> (\<forall>s. acc_funds s a' = acc_funds s a) \<and> reward_vesting_hive a' = reward_vesting_hive a
     \<and> acc_card a' = acc_card a \<and> (acc_nonneg a \<longrightarrow> acc_nonneg a')"

lemma same_money_refl [simp]: "same_money a a"
  by (simp add: same_money_def)

lemma same_money_trans: "same_money a b \<Longrightarrow> same_money b c \<Longrightarrow> same_money a c"
  by (simp add: same_money_def)

lemma map_modify_found:
  "tbl_find key k xs = Some x \<Longrightarrow> h (f x) = h x \<Longrightarrow> map h (tbl_modify key k f xs) = map h xs"
  by (induction xs) (auto split: if_splits)

lemma moves_store_account:
  assumes a: "tbl_find acc_name n (accounts db) = Some a"
    and f: "\<And>s. acc_funds s (f a) = acc_funds s a + d s" "reward_vesting_hive (f a) = reward_vesting_hive a + p"
      "acc_card (f a) = acc_card a" "has_hardfork db 20 \<Longrightarrow> acc_nonneg a \<Longrightarrow> acc_nonneg (f a)"
  shows "moves d p db (modify_account n f db)"
  using assms map_modify_found [OF a, of acc_card f]
  by (auto simp: moves_def gap_modify_account pending_gap_modify_account get_account_def result_simps same_objects_def
      head_block_time_def accounts_step_def accounts_nonneg_def intro!: list_all_modify)

lemma moves_same_money:
  assumes "tbl_find acc_name n (accounts db) = Some a" "same_money a (f a)"
  shows "moves (\<lambda>s. 0) 0 db (modify_account n f db)"
  using assms by (intro moves_store_account) (auto simp: same_money_def)

lemma wp_try_modify_account:
  assumes "\<And>a. tbl_find acc_name n (accounts db) = Some a \<Longrightarrow> on_ok (f a) (\<lambda>a'. Q (modify_account n (\<lambda>_. a') db))"
  shows "on_ok (try_modify_account n f db) Q"
  unfolding try_modify_account_def get_account_def using assms by (intro wp_rbind wp_tbl_get on_ok_mono [OF assms]) (auto intro: wp_Inr)

lemma wp_quiet_account:
  assumes "\<And>a. on_ok (f a) (same_money a)" "\<And>db'. moves (\<lambda>s. 0) 0 db db' \<Longrightarrow> Q db'"
  shows "on_ok (try_modify_account n f db) Q"
  by (rule wp_try_modify_account, rule on_ok_mono [OF assms(1)], rule assms(2)) (erule moves_same_money)

section \<open>Tables without funds\<close>

locale side_table =
  fixes rows :: "chain_db \<Rightarrow> 'a list" and set_rows :: "'a list \<Rightarrow> chain_db \<Rightarrow> chain_db"
  assumes rows_set: "rows (set_rows xs db) = xs"
    and set_set: "set_rows xs (set_rows ys db) = set_rows xs db"
    and accounts_set: "accounts (set_rows xs db) = accounts db"
    and gpo_set: "gpo (set_rows xs db) = gpo db"
    and quiet_set: "moves (\<lambda>s. 0) 0 db (set_rows xs db)"
begin

lemma find_modify_row:
  "(\<And>x. key (f x) = key x) \<Longrightarrow>
   tbl_find key k (rows (set_rows (tbl_modify key k' f (rows db)) db)) =
     (if k = k' then map_option f (tbl_find key k (rows db)) else tbl_find key k (rows db))"
  by (simp add: rows_set tbl_find_modify)

lemma total_modify_row:
  "tbl_find key k (rows db) = Some x \<Longrightarrow> total g (rows (set_rows (tbl_modify key k f (rows db)) db)) = total g (rows db) + g (f x) - g x"
  by (simp add: rows_set total_modify)

lemma total_remove_row:
  "tbl_find key k (rows db) = Some x \<Longrightarrow> total g (rows (set_rows (tbl_remove key k (rows db)) db)) = total g (rows db) - g x"
  by (simp add: rows_set total_remove)

lemma get_account_set [simp]: "get_account (set_rows xs db) n = get_account db n"
  by (simp add: get_account_def accounts_set)

lemma wp_emplace_row:
  assumes "\<And>db'. moves (\<lambda>s. 0) 0 db db' \<Longrightarrow> rows db' = rows db @ [x] \<Longrightarrow> tbl_find key (key x) (rows db) = None \<Longrightarrow> Q db'"
  shows "on_ok (rbind (tbl_emplace key x (rows db)) (\<lambda>xs. Inr (set_rows xs db))) Q"
  by (intro wp assms quiet_set) (simp_all add: rows_set)

end

lemma quiet_tables:
  "moves (\<lambda>s. 0) 0 db (db\<lparr>vesting_delegations := vd\<rparr>)"
  "moves (\<lambda>s. 0) 0 db (db\<lparr>vesting_delegation_expirations := ve\<rparr>)"
  "moves (\<lambda>s. 0) 0 db (db\<lparr>withdraw_vesting_routes := wr\<rparr>)"
  "moves (\<lambda>s. 0) 0 db (db\<lparr>rc_direct_delegations := rd\<rparr>)"
  "moves (\<lambda>s. 0) 0 db (db\<lparr>rc_expired_delegations := re\<rparr>)"
  "moves (\<lambda>s. 0) 0 db (db\<lparr>witnesses := ws\<rparr>)"
  "moves (\<lambda>s. 0) 0 db (db\<lparr>witness_votes := wv\<rparr>)"
  "moves (\<lambda>s. 0) 0 db (db\<lparr>liquidity_rewards := lr\<rparr>)"
  by (simp_all add: moves_def gap_def object_funds_def pending_gap_def same_objects_def accounts_step_def accounts_nonneg_def
      head_block_time_def)

interpretation delegations: side_table vesting_delegations "\<lambda>xs db. db\<lparr>vesting_delegations := xs\<rparr>"
  by unfold_locales (simp_all add: quiet_tables)

interpretation returning: side_table vesting_delegation_expirations "\<lambda>xs db. db\<lparr>vesting_delegation_expirations := xs\<rparr>"
  by unfold_locales (simp_all add: quiet_tables)

interpretation routes: side_table withdraw_vesting_routes "\<lambda>xs db. db\<lparr>withdraw_vesting_routes := xs\<rparr>"
  by unfold_locales (simp_all add: quiet_tables)

interpretation rc_delegations: side_table rc_direct_delegations "\<lambda>xs db. db\<lparr>rc_direct_delegations := xs\<rparr>"
  by unfold_locales (simp_all add: quiet_tables)

interpretation rc_expired: side_table rc_expired_delegations "\<lambda>xs db. db\<lparr>rc_expired_delegations := xs\<rparr>"
  by unfold_locales (simp_all add: quiet_tables)

interpretation witness_tbl: side_table witnesses "\<lambda>xs db. db\<lparr>witnesses := xs\<rparr>"
  by unfold_locales (simp_all add: quiet_tables)

interpretation vote_tbl: side_table witness_votes "\<lambda>xs db. db\<lparr>witness_votes := xs\<rparr>"
  by unfold_locales (simp_all add: quiet_tables)

interpretation liquidity_tbl: side_table liquidity_rewards "\<lambda>xs db. db\<lparr>liquidity_rewards := xs\<rparr>"
  by unfold_locales (simp_all add: quiet_tables)

end
