(* ===== verification/Resource_Credits.thy ===== *)
theory Resource_Credits
  imports Side_Tables Account_Name
begin

text \<open>
  Resource credits: the vesting and RC getters of \<open>account_object.hpp\<close>, and of
  \<open>chain/rc/rc_utility.cpp\<close> the regeneration of RC, direct RC delegations, their removal when
  the delegator no longer backs them, and the delayed removal over several blocks. The alerts
  that the code only logs are left out; so are the RC cost bookkeeping of a transaction and
  its report.
\<close>

section \<open>Vesting and RC of an account\<close>

definition HIVE_RC_REGEN_TIME :: int where "HIVE_RC_REGEN_TIME = HIVE_VOTING_MANA_REGENERATION_SECONDS"

definition get_total_vesting_withdrawal :: "account_object \<Rightarrow> int result" where
  "get_total_vesting_withdrawal a = ssub (to_withdraw a) (withdrawn a)"

definition has_active_power_down :: "account_object \<Rightarrow> bool" where
  "has_active_power_down a \<longleftrightarrow> next_vesting_withdrawal a \<noteq> uint32_max"

definition get_next_vesting_withdrawal :: "account_object \<Rightarrow> int result" where
  "get_next_vesting_withdrawal a =
     (if has_active_power_down a then
        rbind (get_total_vesting_withdrawal a) (\<lambda>t. Inr (min (vesting_withdraw_rate a) t))
      else Inr 0)"

definition get_effective_vesting_shares :: "account_object \<Rightarrow> int result" where
  "get_effective_vesting_shares a =
     rbind (ssub (vesting_shares a) (delegated_vesting_shares a)) (\<lambda>x.
     rbind (sadd x (received_vesting_shares a)) (\<lambda>t.
       if next_vesting_withdrawal a \<noteq> uint32_max then rbind (get_next_vesting_withdrawal a) (\<lambda>w. ssub t w)
       else Inr t))"

definition get_maximum_rc :: "bool \<Rightarrow> account_object \<Rightarrow> int result" where
  "get_maximum_rc only_delegable a =
     rbind (get_effective_vesting_shares a) (\<lambda>e.
     rbind (ssub e (acc_delegated_rc a)) (\<lambda>t.
       if only_delegable then Inr t
       else rbind (sadd (rc_adjustment a) (received_rc a)) (\<lambda>r. sadd t r)))"

definition get_vesting_share_price :: "dynamic_global_property_object \<Rightarrow> price result" where
  "get_vesting_share_price g =
     (if total_vesting_fund_hive g = 0 \<or> total_vesting_shares g = 0
      then price_make (mk_asset 1000000 VESTS_SYMBOL) (mk_asset 1000 HIVE_SYMBOL)
      else price_make (mk_asset (total_vesting_shares g) VESTS_SYMBOL) (mk_asset (total_vesting_fund_hive g) HIVE_SYMBOL))"

section \<open>Regeneration and changes of RC\<close>

definition rc_params :: "int \<Rightarrow> manabar_params" where
  "rc_params max_rc = \<lparr>max_mana = max_rc, regen_time = HIVE_RC_REGEN_TIME\<rparr>"

definition regenerate_rc_mana :: "string \<Rightarrow> int \<Rightarrow> chain_db \<Rightarrow> chain_db result" where
  "regenerate_rc_mana name now =
     try_modify_account name (\<lambda>a.
       rbind (get_maximum_rc False a) (\<lambda>m.
       rbind (regenerate_mana True (rc_manabar a) (rc_params m) now) (\<lambda>bar.
         Inr (a\<lparr>rc_manabar := bar\<rparr>))))"

definition update_account_after_rc_delegation :: "string \<Rightarrow> int \<Rightarrow> int \<Rightarrow> bool \<Rightarrow> chain_db \<Rightarrow> chain_db result" where
  "update_account_after_rc_delegation name now delta regenerate =
     try_modify_account name (\<lambda>a.
       rbind (get_maximum_rc False a) (\<lambda>max_rc.
       rbind (if regenerate then regenerate_mana True (rc_manabar a) (rc_params max_rc) now else Inr (rc_manabar a)) (\<lambda>bar.
       rbind (sadd (received_rc a) delta) (\<lambda>received.
         Inr (a\<lparr>rc_manabar := bar\<lparr>current_mana := max (cast_i64 (current_mana bar + delta)) 0\<rparr>,
                last_max_rc := cast_i64 (max_rc + delta), received_rc := received\<rparr>)))))"

abbreviation rcd_key :: "rc_direct_delegation_object \<Rightarrow> nat \<times> nat" where
  "rcd_key d \<equiv> (rcd_from d, rcd_to d)"

text \<open>\<open>remove_guard::step\<close>: the new limit, unless no removal is allowed any more.\<close>

definition guard_step :: "int \<Rightarrow> int option" where
  "guard_step limit = (if limit > 0 then Some (limit - 1) else if limit \<noteq> 0 then Some limit else None)"

definition reduce_delegation :: "rc_direct_delegation_object \<Rightarrow> int \<Rightarrow> chain_db \<Rightarrow> int \<Rightarrow> (chain_db \<times> int) option" where
  "reduce_delegation d delta db limit =
     (if delegated_rc d > cast_u64 delta then
        Some (db\<lparr>rc_direct_delegations := tbl_modify rcd_key (rcd_key d)
                  (\<lambda>r. r\<lparr>delegated_rc := cast_u64 (delegated_rc r - delta)\<rparr>) (rc_direct_delegations db)\<rparr>, limit)
      else map_option (\<lambda>l. (db\<lparr>rc_direct_delegations := tbl_remove rcd_key (rcd_key d) (rc_direct_delegations db)\<rparr>, l))
             (guard_step limit))"

fun remove_delegations_loop ::
  "rc_direct_delegation_object list \<Rightarrow> int \<Rightarrow> chain_db \<Rightarrow> int \<Rightarrow> int \<Rightarrow> (chain_db \<times> int \<times> int) result" where
  "remove_delegations_loop [] now db overflow limit = Inr (db, overflow, limit)"
| "remove_delegations_loop (d # ds) now db overflow limit =
     (if overflow > 0 then
        let delta = min overflow (cast_i64 (delegated_rc d)) in
        case reduce_delegation d delta db limit of
          None \<Rightarrow> Inr (db, overflow, limit)
        | Some (db, limit) \<Rightarrow>
            rbind (get_account_by_id db (rcd_to d)) (\<lambda>to_account.
            rbind (update_account_after_rc_delegation (acc_name to_account) now (- delta) True db) (\<lambda>db.
              remove_delegations_loop ds now db (overflow - delta) limit))
      else Inr (db, overflow, limit))"

definition remove_delegations :: "chain_db \<Rightarrow> int \<Rightarrow> nat \<Rightarrow> int \<Rightarrow> int \<Rightarrow> (chain_db \<times> int \<times> int) result" where
  "remove_delegations db overflow delegator now limit =
     remove_delegations_loop (sort_key rcd_to (filter (\<lambda>d. rcd_from d = delegator) (rc_direct_delegations db))) now db overflow limit"

definition record_overflow :: "nat \<Rightarrow> int \<Rightarrow> chain_db \<Rightarrow> chain_db result" where
  "record_overflow i overflow db =
     (case tbl_find rce_from i (rc_expired_delegations db) of
        Some _ \<Rightarrow> Inr (db\<lparr>rc_expired_delegations :=
          tbl_modify rce_from i (\<lambda>e. e\<lparr>expired_delegation := cast_u64 (expired_delegation e + overflow)\<rparr>) (rc_expired_delegations db)\<rparr>)
      | None \<Rightarrow> rbind (tbl_emplace rce_from \<lparr>rce_from = i, expired_delegation = cast_u64 overflow\<rparr> (rc_expired_delegations db))
          (\<lambda>es. Inr (db\<lparr>rc_expired_delegations := es\<rparr>)))"

definition settle_overflow :: "account_object \<Rightarrow> int \<Rightarrow> int \<Rightarrow> chain_db \<Rightarrow> chain_db result" where
  "settle_overflow account initial_overflow now db =
     rbind (remove_delegations db initial_overflow (acc_id account) now (current_remove_threshold (gpo db))) (\<lambda>(db, overflow, _).
     rbind (if overflow > 0 then record_overflow (acc_id account) overflow db else Inr db) (\<lambda>db.
       try_modify_account (acc_name account) (\<lambda>a.
         rbind (ssub (acc_delegated_rc a) initial_overflow) (\<lambda>d. Inr (a\<lparr>acc_delegated_rc := d\<rparr>))) db))"

definition check_delegation_overflow :: "string \<Rightarrow> int \<Rightarrow> chain_db \<Rightarrow> chain_db result" where
  "check_delegation_overflow name now db =
     rbind (get_account db name) (\<lambda>account.
     if acc_delegated_rc account > 0 then
       rbind (get_maximum_rc True account) (\<lambda>m.
       let initial_overflow = cast_i64 (- m) in
       if initial_overflow > 0 then settle_overflow account initial_overflow now db
       else Inr db)
     else Inr db)"

definition update_account_after_vest_change :: "string \<Rightarrow> int \<Rightarrow> bool \<Rightarrow> bool \<Rightarrow> chain_db \<Rightarrow> chain_db result" where
  "update_account_after_vest_change name now fill_new_mana check_overflow db =
     rbind (if check_overflow then check_delegation_overflow name now db else Inr db) (\<lambda>db.
       try_modify_account name (\<lambda>a.
         rbind (get_maximum_rc False a) (\<lambda>new_last_max_rc.
         let drc = cast_i64 (new_last_max_rc - last_max_rc a);
             drc = (if fill_new_mana then drc else 0) in
         if new_last_max_rc \<noteq> last_max_rc a then
           let mana = cast_i64 (current_mana (rc_manabar a) + max drc 0) in
           Inr (a\<lparr>last_max_rc := new_last_max_rc,
                  rc_manabar := (rc_manabar a)\<lparr>current_mana := (if mana > new_last_max_rc then new_last_max_rc else mana)\<rparr>\<rparr>)
         else Inr a)) db)"

section \<open>Direct delegations\<close>

record delegate_rc_operation =
  dr_from :: string
  dr_delegatees :: "string list"
  dr_max_rc :: int

definition HIVE_RC_MAX_ACCOUNTS_PER_DELEGATION_OP :: nat where "HIVE_RC_MAX_ACCOUNTS_PER_DELEGATION_OP = 100"

fun validate_delegatees :: "string \<Rightarrow> string list \<Rightarrow> unit result" where
  "validate_delegatees from [] = Inr ()"
| "validate_delegatees from (d # ds) =
     rbind (validate_account_name d) (\<lambda>_.
     fc_assert (d \<noteq> from) ''cannot delegate rc to yourself'' (validate_delegatees from ds))"

definition delegate_rc_validate :: "delegate_rc_operation \<Rightarrow> unit result" where
  "delegate_rc_validate op =
     rbind (validate_account_name (dr_from op)) (\<lambda>_.
     fc_assert (length (dr_delegatees op) \<noteq> 0) ''Must provide at least one account''
     (fc_assert (length (dr_delegatees op) \<le> HIVE_RC_MAX_ACCOUNTS_PER_DELEGATION_OP) ''cannot delegate to more than max accounts in one operation''
     (rbind (validate_delegatees (dr_from op) (dr_delegatees op)) (\<lambda>_.
      fc_assert (dr_max_rc op \<ge> 0) ''amount of rc delegated cannot be negative'' (Inr ())))))"

definition set_delegation :: "nat \<Rightarrow> nat \<Rightarrow> int \<Rightarrow> chain_db \<Rightarrow> (int \<times> chain_db) result" where
  "set_delegation from to max_rc db =
     (case tbl_find rcd_key (from, to) (rc_direct_delegations db) of
        None \<Rightarrow>
          fc_assert (max_rc \<noteq> 0) ''Cannot delegate 0 if you are creating new rc delegation''
          (rbind (tbl_emplace rcd_key \<lparr>rcd_from = from, rcd_to = to, delegated_rc = cast_u64 max_rc\<rparr> (rc_direct_delegations db)) (\<lambda>ds.
            Inr (max_rc, db\<lparr>rc_direct_delegations := ds\<rparr>)))
      | Some d \<Rightarrow>
          fc_assert (delegated_rc d \<noteq> cast_u64 max_rc) ''A delegation to that user with the same amount of RC already exists''
          (Inr (cast_i64 (max_rc - delegated_rc d),
             if max_rc = 0 then db\<lparr>rc_direct_delegations := tbl_remove rcd_key (from, to) (rc_direct_delegations db)\<rparr>
             else db\<lparr>rc_direct_delegations := tbl_modify rcd_key (from, to) (\<lambda>r. r\<lparr>delegated_rc := cast_u64 max_rc\<rparr>)
                     (rc_direct_delegations db)\<rparr>)))"

fun delegate_rc_loop :: "string list \<Rightarrow> nat \<Rightarrow> int \<Rightarrow> int \<Rightarrow> chain_db \<Rightarrow> int \<Rightarrow> (chain_db \<times> int) result" where
  "delegate_rc_loop [] from max_rc now db delta_total = Inr (db, delta_total)"
| "delegate_rc_loop (to # tos) from max_rc now db delta_total =
     rbind (get_account db to) (\<lambda>to_account.
     rbind (regenerate_rc_mana to now db) (\<lambda>db.
     rbind (set_delegation from (acc_id to_account) max_rc db) (\<lambda>(delta, db).
     rbind (update_account_after_rc_delegation to now delta False db) (\<lambda>db.
       delegate_rc_loop tos from max_rc now db (cast_i64 (delta_total + delta))))))"

definition has_expired_delegation :: "chain_db \<Rightarrow> nat \<Rightarrow> bool" where
  "has_expired_delegation db i \<longleftrightarrow> tbl_find rce_from i (rc_expired_delegations db) \<noteq> None"

definition check_min_delegation :: "delegate_rc_operation \<Rightarrow> chain_db \<Rightarrow> unit result" where
  "check_min_delegation op db =
     rbind (sdivide (median_account_creation_fee (witness_schedule db)) 3) (\<lambda>fee.
     rbind (get_vesting_share_price (gpo db)) (\<lambda>p.
     rbind (asset_mul_price (mk_asset fee HIVE_SYMBOL) p) (\<lambda>min_delegation.
       fc_assert (dr_max_rc op \<ge> asset_amount min_delegation) ''Cannot delegate less than min_delegation rc'' (Inr ()))))"

definition pay_delegated_rc :: "string \<Rightarrow> int \<Rightarrow> chain_db \<Rightarrow> chain_db result" where
  "pay_delegated_rc from delta_total =
     try_modify_account from (\<lambda>a.
       rbind (get_maximum_rc True a) (\<lambda>m.
       fc_assert (min m (current_mana (rc_manabar a)) \<ge> delta_total) ''Account has insufficient RC''
       (let a = (if delta_total > 0
                 then a\<lparr>rc_manabar := (rc_manabar a)\<lparr>current_mana := cast_i64 (current_mana (rc_manabar a) - delta_total)\<rparr>\<rparr>
                 else a) in
        rbind (sadd (acc_delegated_rc a) delta_total) (\<lambda>d.
        let a = a\<lparr>acc_delegated_rc := d\<rparr> in
        rbind (get_maximum_rc False a) (\<lambda>mx. Inr (a\<lparr>last_max_rc := mx\<rparr>))))))"

definition delegate_rc_apply :: "bool \<Rightarrow> delegate_rc_operation \<Rightarrow> chain_db \<Rightarrow> chain_db result" where
  "delegate_rc_apply in_control op db =
     (if \<not> has_hardfork db 26 then Inr db
      else
        rbind (if dr_max_rc op \<noteq> 0 \<and> in_control then check_min_delegation op db else Inr ()) (\<lambda>_.
        let now = gpo_time (gpo db) in
        rbind (get_account db (dr_from op)) (\<lambda>from.
        rbind (regenerate_rc_mana (dr_from op) now db) (\<lambda>db.
        fc_assert (\<not> in_control \<or> \<not> has_expired_delegation db (acc_id from))
          ''Cannot delegate RC while processing of previous delegation has not finished.''
        (rbind (delegate_rc_loop (dr_delegatees op) (acc_id from) (dr_max_rc op) now db 0) (\<lambda>(db, delta_total).
         pay_delegated_rc (dr_from op) delta_total db))))))"

section \<open>Expired delegations\<close>

lemma wp_try_account:
  "(\<And>a a'. tbl_find acc_name n (accounts db) = Some a \<Longrightarrow> f a = Inr a' \<Longrightarrow> Q (modify_account n (\<lambda>_. a') db)) \<Longrightarrow>
   on_ok (try_modify_account n f db) Q"
  by (rule wp_try_modify_account) (auto simp: on_ok_def)

lemma modify_account_side [simp]:
  "rc_direct_delegations (modify_account n f db) = rc_direct_delegations db"
  "rc_expired_delegations (modify_account n f db) = rc_expired_delegations db"
  "witnesses (modify_account n f db) = witnesses db" "witness_votes (modify_account n f db) = witness_votes db"
  "witness_schedule (modify_account n f db) = witness_schedule db"
  "future_witness_schedule (modify_account n f db) = future_witness_schedule db"
  "vesting_delegations (modify_account n f db) = vesting_delegations db"
  "vesting_delegation_expirations (modify_account n f db) = vesting_delegation_expirations db"
  "withdraw_vesting_routes (modify_account n f db) = withdraw_vesting_routes db"
  by (simp_all add: modify_account_def)

lemma update_after_rc_delegation_tables:
  "on_ok (update_account_after_rc_delegation n now delta r db) (\<lambda>db'. rc_direct_delegations db' = rc_direct_delegations db
     \<and> rc_expired_delegations db' = rc_expired_delegations db)"
  unfolding update_account_after_rc_delegation_def by (rule wp_try_account) simp

lemma remove_delegations_expired:
  "on_ok (remove_delegations_loop ds now db overflow limit) (\<lambda>(db', _). rc_expired_delegations db' = rc_expired_delegations db)"
proof (induction ds arbitrary: db overflow limit)
  case (Cons d ds)
  have *: "on_ok (update_account_after_rc_delegation n now x True db1)
      (\<lambda>db2. on_ok (remove_delegations_loop ds now db2 y l) (\<lambda>(db', _). rc_expired_delegations db' = rc_expired_delegations db))"
    if "rc_expired_delegations db1 = rc_expired_delegations db" for n x db1 y l
    by (rule on_ok_mono [OF update_after_rc_delegation_tables], rule on_ok_mono [OF Cons.IH]) (auto simp: that)
  show ?case
    unfolding remove_delegations_loop.simps Let_def get_account_by_id_def
    by (intro wp wp_prod *) (auto simp: reduce_delegation_def split: if_splits)
qed (simp add: on_ok_def)

function expired_loop :: "int \<Rightarrow> int \<Rightarrow> chain_db \<Rightarrow> chain_db result" where
  "expired_loop now limit db =
     (case rc_expired_delegations db of
        [] \<Rightarrow> Inr db
      | e # _ \<Rightarrow>
          rbind (remove_delegations db (cast_i64 (expired_delegation e)) (rce_from e) now limit) (\<lambda>(db, overflow, limit).
            if overflow > 0 then
              Inr (db\<lparr>rc_expired_delegations :=
                tbl_modify rce_from (rce_from e) (\<lambda>e. e\<lparr>expired_delegation := cast_u64 overflow\<rparr>) (rc_expired_delegations db)\<rparr>)
            else if limit = 0 then
              Inr (db\<lparr>rc_expired_delegations := tbl_remove rce_from (rce_from e) (rc_expired_delegations db)\<rparr>)
            else
              expired_loop now limit (db\<lparr>rc_expired_delegations := tbl_remove rce_from (rce_from e) (rc_expired_delegations db)\<rparr>)))"
  by pat_completeness auto
termination
proof (relation "measure (\<lambda>(_, _, db). length (rc_expired_delegations db))", goal_cases)
  case (2 now limit db e es x db1 y overflow limit1)
  then have "rc_expired_delegations db1 = rc_expired_delegations db"
    using on_okD [OF remove_delegations_expired] by (fastforce simp: remove_delegations_def)
  then show ?case using 2 by simp
qed simp

declare expired_loop.simps [simp del]

definition handle_expired_delegations :: "chain_db \<Rightarrow> chain_db result" where
  "handle_expired_delegations db =
     (if \<not> has_hardfork db 26 then Inr db
      else expired_loop (head_block_time db) (current_remove_threshold (gpo db)) db)"

end
