(* ===== verification/Rc_Books.thy ===== *)
theory Rc_Books
  imports Resource_Credits
begin

text \<open>
  The books of resource credits: the records of direct delegations, the records of delegations
  still to be taken back and the counters of the accounts agree through the operations of
  \<open>Resource_Credits\<close>, as long as the sum of a delegation operation fits 63 bits; without that
  bound the sum wraps and the receivers get RC that nobody gives.
\<close>

section \<open>Records and counters agree\<close>

definition rc_out :: "chain_db \<Rightarrow> nat \<Rightarrow> int" where
  "rc_out db i = total (\<lambda>d. if rcd_from d = i then delegated_rc d else 0) (rc_direct_delegations db)"

definition rc_in :: "chain_db \<Rightarrow> nat \<Rightarrow> int" where
  "rc_in db i = total (\<lambda>d. if rcd_to d = i then delegated_rc d else 0) (rc_direct_delegations db)"

definition rc_pending :: "chain_db \<Rightarrow> nat \<Rightarrow> int" where
  "rc_pending db i = total (\<lambda>e. if rce_from e = i then expired_delegation e else 0) (rc_expired_delegations db)"

definition rc_rows_ok :: "chain_db \<Rightarrow> bool" where
  "rc_rows_ok db \<longleftrightarrow> distinct (map rcd_key (rc_direct_delegations db))
     \<and> list_all (\<lambda>d. 0 < delegated_rc d \<and> delegated_rc d \<le> int64_max) (rc_direct_delegations db)
     \<and> distinct (map acc_id (accounts db)) \<and> distinct (map acc_name (accounts db))"

text \<open>What an account has received is what the records of delegations to it say.\<close>

definition rc_received_ok :: "chain_db \<Rightarrow> bool" where
  "rc_received_ok db \<longleftrightarrow> list_all (\<lambda>a. rc_in db (acc_id a) = received_rc a) (accounts db)"

definition rc_card :: "account_object \<Rightarrow> nat \<times> string \<times> int" where
  "rc_card a = (acc_id a, acc_name a, acc_delegated_rc a)"

definition rc_removed :: "nat \<Rightarrow> int \<Rightarrow> chain_db \<Rightarrow> chain_db \<Rightarrow> bool" where
  "rc_removed i n db db' \<longleftrightarrow> rc_rows_ok db' \<and> rc_received_ok db'
     \<and> (\<forall>j. rc_out db' j = rc_out db j - (if j = i then n else 0))
     \<and> map rc_card (accounts db') = map rc_card (accounts db) \<and> rc_expired_delegations db' = rc_expired_delegations db
     \<and> gpo db' = gpo db \<and> processed_hardforks db' = processed_hardforks db"

lemma rc_removed_refl: "rc_rows_ok db \<Longrightarrow> rc_received_ok db \<Longrightarrow> rc_removed i 0 db db"
  by (simp add: rc_removed_def)

lemma rc_removed_trans: "rc_removed i m a b \<Longrightarrow> rc_removed i n b c \<Longrightarrow> m + n = k \<Longrightarrow> rc_removed i k a c"
  by (auto simp: rc_removed_def)

lemma list_all_store:
  "tbl_find key k xs = Some x \<Longrightarrow> distinct (map key xs) \<Longrightarrow> (\<And>y. y \<in> set xs \<Longrightarrow> key y \<noteq> k \<Longrightarrow> P y) \<Longrightarrow> P (f x) \<Longrightarrow>
   list_all P (tbl_modify key k f xs)"
proof (induction xs)
  case (Cons y ys)
  then show ?case
  proof (cases "key y = k")
    case True
    then have "key z \<noteq> k" if "z \<in> set ys" for z
      using Cons.prems(2) that by (metis distinct.simps(2) image_eqI list.simps(9) list.set_map)
    then show ?thesis using Cons.prems True by (auto simp: list_all_iff)
  qed auto
qed simp

lemma update_after_rc_delegation_effect:
  "on_ok (update_account_after_rc_delegation n now delta r db) (\<lambda>db'. \<exists>a a'. tbl_find acc_name n (accounts db) = Some a
     \<and> db' = modify_account n (\<lambda>_. a') db \<and> rc_card a' = rc_card a \<and> received_rc a' = received_rc a + delta)"
  unfolding update_account_after_rc_delegation_def
  by (rule wp_try_account) (auto simp: result_simps rc_card_def dest!: sadd_eq_Inr split: if_splits)

lemma store_received:
  assumes rows: "rc_rows_ok db" and in': "\<And>j. rc_in db j = inb j + (if j = acc_id a then delta else 0)"
    and old: "list_all (\<lambda>a. inb (acc_id a) = received_rc a) (accounts db)"
    and a: "tbl_find acc_name n (accounts db) = Some a" "acc_id a' = acc_id a" "acc_name a' = acc_name a"
      "received_rc a' = received_rc a + delta"
  shows "rc_rows_ok (modify_account n (\<lambda>_. a') db) \<and> rc_received_ok (modify_account n (\<lambda>_. a') db)"
proof -
  have maps: "map acc_id (tbl_modify acc_name n (\<lambda>_. a') (accounts db)) = map acc_id (accounts db)"
    "map acc_name (tbl_modify acc_name n (\<lambda>_. a') (accounts db)) = map acc_name (accounts db)"
    using a by (auto intro!: map_modify_found)
  have ids: "inj_on acc_id (set (accounts db))" and names: "distinct (map acc_name (accounts db))"
    using rows by (auto simp: rc_rows_ok_def distinct_map)
  have "list_all (\<lambda>b. rc_in db (acc_id b) = received_rc b) (tbl_modify acc_name n (\<lambda>_. a') (accounts db))"
  proof (rule list_all_store [OF a(1) names])
    fix y assume y: "y \<in> set (accounts db)" "acc_name y \<noteq> n"
    then have "acc_id y \<noteq> acc_id a" using ids tbl_find_key [OF a(1)] by (auto dest: inj_onD)
    then show "rc_in db (acc_id y) = received_rc y" using old y by (auto simp: in' list_all_iff)
  next
    show "rc_in db (acc_id a') = received_rc a'"
      using old a tbl_find_key [OF a(1)] by (auto simp: in' list_all_iff)
  qed
  then show ?thesis
    using rows maps by (simp add: rc_rows_ok_def rc_received_ok_def rc_in_def)
qed

text \<open>\<open>rows_moved i t n ds ds'\<close>: the records say that \<open>i\<close> delegates \<open>n\<close> less to \<open>t\<close>, and nothing else changed.\<close>

definition rows_good :: "rc_direct_delegation_object list \<Rightarrow> bool" where
  "rows_good ds \<longleftrightarrow> distinct (map rcd_key ds) \<and> list_all (\<lambda>d. 0 < delegated_rc d \<and> delegated_rc d \<le> int64_max) ds"

definition rows_moved :: "nat \<Rightarrow> nat \<Rightarrow> int \<Rightarrow> rc_direct_delegation_object list \<Rightarrow> rc_direct_delegation_object list \<Rightarrow> bool" where
  "rows_moved i t n ds ds' \<longleftrightarrow> rows_good ds'
     \<and> (\<forall>j. total (\<lambda>d. if rcd_from d = j then delegated_rc d else 0) ds'
          = total (\<lambda>d. if rcd_from d = j then delegated_rc d else 0) ds - (if j = i then n else 0))
     \<and> (\<forall>j. total (\<lambda>d. if rcd_to d = j then delegated_rc d else 0) ds'
          = total (\<lambda>d. if rcd_to d = j then delegated_rc d else 0) ds - (if j = t then n else 0))"

lemma rows_moved_remove:
  assumes "rows_good ds" "tbl_find rcd_key (i, t) ds = Some d"
  shows "rows_moved i t (delegated_rc d) ds (tbl_remove rcd_key (i, t) ds)"
proof -
  have "rcd_from d = i" "rcd_to d = t" using tbl_find_key [OF assms(2)] by simp_all
  moreover have "rows_good (tbl_remove rcd_key (i, t) ds)"
    using assms(1) set_tbl_remove [of rcd_key "(i, t)" ds] distinct_remove [of rcd_key ds]
    by (auto simp: rows_good_def list_all_iff)
  ultimately show ?thesis by (simp add: rows_moved_def total_remove [OF assms(2)])
qed

lemma rows_moved_modify:
  assumes "rows_good ds" "tbl_find rcd_key (i, t) ds = Some d" "0 < v d" "v d \<le> int64_max"
  shows "rows_moved i t (delegated_rc d - v d) ds (tbl_modify rcd_key (i, t) (\<lambda>r. r\<lparr>delegated_rc := v r\<rparr>) ds)"
proof -
  have "rcd_from d = i" "rcd_to d = t" using tbl_find_key [OF assms(2)] by simp_all
  moreover have "map rcd_key (tbl_modify rcd_key (i, t) (\<lambda>r. r\<lparr>delegated_rc := v r\<rparr>) ds) = map rcd_key ds"
    by (rule map_modify_same) simp
  moreover have "list_all (\<lambda>d. 0 < delegated_rc d \<and> delegated_rc d \<le> int64_max) (tbl_modify rcd_key (i, t) (\<lambda>r. r\<lparr>delegated_rc := v r\<rparr>) ds)"
    using assms by (intro list_all_store [OF assms(2)]) (auto simp: rows_good_def list_all_iff)
  ultimately have "rows_good (tbl_modify rcd_key (i, t) (\<lambda>r. r\<lparr>delegated_rc := v r\<rparr>) ds)"
    using assms(1) by (simp add: rows_good_def)
  moreover note \<open>rcd_from d = i\<close> \<open>rcd_to d = t\<close>
  ultimately show ?thesis by (simp add: rows_moved_def total_modify [OF assms(2)])
qed

lemma rows_moved_new:
  assumes "rows_good ds" "tbl_find rcd_key (i, t) ds = None" "0 < v" "v \<le> int64_max"
  shows "rows_moved i t (- v) ds (ds @ [\<lparr>rcd_from = i, rcd_to = t, delegated_rc = v\<rparr>])"
proof -
  have "rows_good (ds @ [\<lparr>rcd_from = i, rcd_to = t, delegated_rc = v\<rparr>])"
    using assms by (auto simp: rows_good_def tbl_find_none)
  then show ?thesis by (simp add: rows_moved_def)
qed

lemma row_change:
  assumes ok: "rc_rows_ok db" "rc_received_ok db" and moved: "rows_moved i t n (rc_direct_delegations db) ds"
    and a: "tbl_find acc_name name (accounts db) = Some a" "acc_id a = t"
  shows "on_ok (update_account_after_rc_delegation name now (- n) r (db\<lparr>rc_direct_delegations := ds\<rparr>))
    (\<lambda>db'. rc_removed i n db db' \<and> rc_direct_delegations db' = ds)"
proof (rule on_ok_mono [OF update_after_rc_delegation_effect], elim exE conjE)
  fix db' b b'
  let ?db = "db\<lparr>rc_direct_delegations := ds\<rparr>"
  assume b: "tbl_find acc_name name (accounts ?db) = Some b" "db' = modify_account name (\<lambda>_. b') ?db"
    "rc_card b' = rc_card b" "received_rc b' = received_rc b + - n"
  have rows: "rc_rows_ok ?db" using ok moved by (simp add: rc_rows_ok_def rows_moved_def rows_good_def)
  have sums: "rc_in ?db j = rc_in db j + (if j = acc_id b then - n else 0)" "rc_out ?db j = rc_out db j - (if j = i then n else 0)" for j
    using moved a b by (simp_all add: rc_in_def rc_out_def rows_moved_def)
  have "rc_out (modify_account name (\<lambda>_. b') ?db) = rc_out ?db" by (simp add: rc_out_def fun_eq_iff)
  then show "rc_removed i n db db' \<and> rc_direct_delegations db' = ds"
    using store_received [OF rows sums(1) _ b(1) _ _ b(4)] ok(2) sums(2) b(1,3) map_modify_found [of acc_name name "accounts db" b rc_card "\<lambda>_. b'"]
    by (simp add: b(2) rc_removed_def rc_received_ok_def rc_card_def [of b] rc_card_def [of b'])
qed

section \<open>Removal of delegations\<close>

lemma reduce_delegation_moves:
  assumes good: "rows_good (rc_direct_delegations db)" and d: "tbl_find rcd_key (rcd_key d) (rc_direct_delegations db) = Some d"
    and delta: "0 < delta" "delta \<le> delegated_rc d" and r: "reduce_delegation d delta db limit = Some (db', l)"
  shows "\<exists>ds. db' = db\<lparr>rc_direct_delegations := ds\<rparr> \<and> rows_moved (rcd_from d) (rcd_to d) delta (rc_direct_delegations db) ds
    \<and> (\<forall>k. k \<noteq> rcd_key d \<longrightarrow> tbl_find rcd_key k ds = tbl_find rcd_key k (rc_direct_delegations db))"
proof -
  have range: "delegated_rc d \<le> int64_max" using good tbl_find_key [OF d] by (auto simp: rows_good_def list_all_iff)
  then have c: "cast_u64 delta = delta" "cast_u64 (delegated_rc d - delta) = delegated_rc d - delta"
    using delta by (simp_all add: cast_simps)
  show ?thesis
  proof (cases "delegated_rc d > delta")
    case True
    have "rows_moved (rcd_from d) (rcd_to d) (delegated_rc d - cast_u64 (delegated_rc d - delta)) (rc_direct_delegations db)
        (tbl_modify rcd_key (rcd_key d) (\<lambda>r. r\<lparr>delegated_rc := cast_u64 (delegated_rc r - delta)\<rparr>) (rc_direct_delegations db))"
      using True range delta by (intro rows_moved_modify good d) (simp_all add: c)
    then show ?thesis
      using r True by (auto simp: reduce_delegation_def c tbl_find_modify)
  next
    case False
    then have eq: "delegated_rc d = delta" using delta by simp
    let ?ds = "tbl_remove rcd_key (rcd_key d) (rc_direct_delegations db)"
    have "db' = db\<lparr>rc_direct_delegations := ?ds\<rparr>" using r False by (auto simp: reduce_delegation_def c)
    moreover have "tbl_find rcd_key k ?ds = tbl_find rcd_key k (rc_direct_delegations db)" if "k \<noteq> rcd_key d" for k
      using that by (rule tbl_find_remove_other)
    ultimately show ?thesis using rows_moved_remove [OF good d] unfolding eq by blast
  qed
qed

lemma tbl_find_account_id:
  assumes "rc_rows_ok db" "get_account_by_id db i = Inr a"
  shows "tbl_find acc_name (acc_name a) (accounts db) = Some a \<and> acc_id a = i"
  using assms find_distinct [of acc_name "accounts db" a] by (auto simp: get_account_by_id_def result_simps rc_rows_ok_def dest: tbl_find_key)

lemma distinct_map_Cons: "distinct (map f (x # xs)) \<Longrightarrow> y \<in> set xs \<Longrightarrow> f y \<noteq> f x"
  by (simp add: image_iff) metis

lemma remove_delegations_loop_removes:
  assumes "rc_rows_ok db" "rc_received_ok db" "distinct (map rcd_key ds)" "0 \<le> ov" "ov \<le> int64_max"
    and "\<And>d. d \<in> set ds \<Longrightarrow> rcd_from d = i \<and> tbl_find rcd_key (rcd_key d) (rc_direct_delegations db) = Some d"
  shows "on_ok (remove_delegations_loop ds now db ov limit) (\<lambda>(db', ov', _). rc_removed i (ov - ov') db db' \<and> 0 \<le> ov' \<and> ov' \<le> ov)"
  using assms
proof (induction ds arbitrary: db ov limit)
  case Nil
  then show ?case by (simp add: on_ok_def rc_removed_refl)
next
  case (Cons d ds)
  have good: "rows_good (rc_direct_delegations db)" using Cons.prems(1) by (simp add: rc_rows_ok_def rows_good_def)
  have d: "rcd_from d = i" "tbl_find rcd_key (rcd_key d) (rc_direct_delegations db) = Some d" using Cons.prems(6) [OF list.set_intros(1)] by blast+
  have rc: "0 < delegated_rc d" "delegated_rc d \<le> int64_max"
    using good tbl_find_key [OF d(2)] by (auto simp: rows_good_def list_all_iff)
  define delta where "delta = min ov (delegated_rc d)"
  have c: "cast_i64 (delegated_rc d) = delegated_rc d" using rc by (simp add: cast_simps)
  have step: "on_ok (rbind (get_account_by_id db1 (rcd_to d)) (\<lambda>a. rbind (update_account_after_rc_delegation (acc_name a) now (- delta) True db1)
      (\<lambda>db. remove_delegations_loop ds now db (ov - delta) l)))
      (\<lambda>(db', ov', _). rc_removed i (ov - ov') db db' \<and> 0 \<le> ov' \<and> ov' \<le> ov)"
    if r: "reduce_delegation d delta db limit = Some (db1, l)" and ov: "0 < ov" for db1 l
  proof -
    have "0 < delta" "delta \<le> delegated_rc d" "delta \<le> ov" using ov rc by (simp_all add: delta_def)
    then obtain rows where rows: "db1 = db\<lparr>rc_direct_delegations := rows\<rparr>"
      "rows_moved i (rcd_to d) delta (rc_direct_delegations db) rows"
      "\<And>k. k \<noteq> rcd_key d \<Longrightarrow> tbl_find rcd_key k rows = tbl_find rcd_key k (rc_direct_delegations db)"
      using reduce_delegation_moves [OF good d(2) _ _ r] d(1) by auto
    have rest: "on_ok (remove_delegations_loop ds now db2 (ov - delta) l)
        (\<lambda>(db', ov', _). rc_removed i (ov - ov') db db' \<and> 0 \<le> ov' \<and> ov' \<le> ov)"
      if db2: "rc_removed i delta db db2" "rc_direct_delegations db2 = rows" for db2
    proof -
      have "rcd_from e = i \<and> tbl_find rcd_key (rcd_key e) (rc_direct_delegations db2) = Some e" if e: "e \<in> set ds" for e
      proof -
        have ne: "rcd_key e \<noteq> rcd_key d" by (rule distinct_map_Cons [OF Cons.prems(3) e])
        show ?thesis
          using Cons.prems(6) [OF list.set_intros(2) [OF e]] unfolding db2(2) rows(3) [OF ne] .
      qed
      then have "on_ok (remove_delegations_loop ds now db2 (ov - delta) l)
          (\<lambda>(db', ov', _). rc_removed i (ov - delta - ov') db2 db' \<and> 0 \<le> ov' \<and> ov' \<le> ov - delta)"
        using db2(1) Cons.prems \<open>delta \<le> ov\<close> \<open>0 < delta\<close> by (intro Cons.IH) (auto simp: rc_removed_def)
      then show ?thesis
        by (rule on_ok_mono) (use \<open>0 < delta\<close> in \<open>auto intro: rc_removed_trans [OF db2(1)]\<close>)
    qed
    have "on_ok (update_account_after_rc_delegation (acc_name a) now (- delta) True db1)
        (\<lambda>db2. rc_removed i delta db db2 \<and> rc_direct_delegations db2 = rows)" if "get_account_by_id db1 (rcd_to d) = Inr a" for a
    proof -
      have "get_account_by_id db (rcd_to d) = Inr a" using that by (simp add: rows(1) get_account_by_id_def)
      note a = tbl_find_account_id [OF Cons.prems(1) this]
      show ?thesis unfolding rows(1) by (rule row_change [OF Cons.prems(1,2) rows(2) a [THEN conjunct1] a [THEN conjunct2]])
    qed
    then show ?thesis
      by (intro wp_rbind on_okI) (auto simp: on_ok_def dest: rest split: sum.splits)
  qed
  show ?case
    using Cons.prems(1,2,4) unfolding remove_delegations_loop.simps Let_def c delta_def [symmetric]
    by (intro wp_if wp_option wp_prod wp_Inr step) (auto simp: rc_removed_refl)
qed

lemma remove_delegations_removes:
  assumes "rc_rows_ok db" "rc_received_ok db" "0 \<le> ov" "ov \<le> int64_max"
  shows "on_ok (remove_delegations db ov i now limit) (\<lambda>(db', ov', _). rc_removed i (ov - ov') db db' \<and> 0 \<le> ov' \<and> ov' \<le> ov)"
proof -
  have "rcd_from d = i \<and> tbl_find rcd_key (rcd_key d) (rc_direct_delegations db) = Some d"
    if "d \<in> set (sort_key rcd_to (filter (\<lambda>d. rcd_from d = i) (rc_direct_delegations db)))" for d
    using that assms(1) find_distinct [of rcd_key "rc_direct_delegations db" d] by (auto simp: rc_rows_ok_def)
  moreover have "distinct (map rcd_key (sort_key rcd_to (filter (\<lambda>d. rcd_from d = i) (rc_direct_delegations db))))"
    using assms(1) by (auto simp: rc_rows_ok_def distinct_map inj_on_def)
  ultimately show ?thesis
    unfolding remove_delegations_def using assms by (intro remove_delegations_loop_removes)
qed

section \<open>The books of resource credits\<close>

text \<open>
  \<open>rc_books out es cards\<close>: what the records of an account add up to is what its counter says it
  delegates and what it waits to take back; no counter is negative and the sums fit 63 bits.
\<close>

definition rc_books :: "(nat \<Rightarrow> int) \<Rightarrow> rc_expired_delegation_object list \<Rightarrow> (nat \<times> string \<times> int) list \<Rightarrow> bool" where
  "rc_books out es cards \<longleftrightarrow>
     list_all (\<lambda>(j, _, d). 0 \<le> d \<and> out j \<le> int64_max \<and> out j = d + total (\<lambda>e. if rce_from e = j then expired_delegation e else 0) es) cards
     \<and> distinct (map rce_from es) \<and> list_all (\<lambda>e. 0 < expired_delegation e \<and> rce_from e \<in> set (map fst cards)) es"

definition rc_inv :: "chain_db \<Rightarrow> bool" where
  "rc_inv db \<longleftrightarrow> rc_rows_ok db \<and> rc_received_ok db
     \<and> rc_books (rc_out db) (rc_expired_delegations db) (map rc_card (accounts db))"

lemma rc_books_store:
  assumes books: "rc_books out es (map rc_card accs)" and dist: "distinct (map acc_id accs)" "distinct (map acc_name accs)"
    and a: "tbl_find acc_name name accs = Some a" "acc_id a' = acc_id a" "acc_name a' = acc_name a"
    and out': "\<And>j. out' j = out j - (if j = acc_id a then n else 0)" "out' (acc_id a) \<le> int64_max"
    and pend: "\<And>j. total (\<lambda>e. if rce_from e = j then expired_delegation e else 0) es'
        = total (\<lambda>e. if rce_from e = j then expired_delegation e else 0) es + (if j = acc_id a then m else 0)"
    and es': "distinct (map rce_from es')" "list_all (\<lambda>e. 0 < expired_delegation e) es'"
      "rce_from ` set es' \<subseteq> insert (acc_id a) (rce_from ` set es)"
    and d': "acc_delegated_rc a' = acc_delegated_rc a - n - m" "0 \<le> acc_delegated_rc a'"
  shows "rc_books out' es' (map rc_card (tbl_modify acc_name name (\<lambda>_. a') accs))"
proof -
  have inj: "inj_on acc_id (set accs)" using dist by (simp add: distinct_map)
  have key: "acc_name a = name" "a \<in> set accs" using tbl_find_key [OF a(1)] by simp_all
  have old: "0 \<le> acc_delegated_rc b \<and> out (acc_id b) \<le> int64_max
      \<and> out (acc_id b) = acc_delegated_rc b + total (\<lambda>e. if rce_from e = acc_id b then expired_delegation e else 0) es" if "b \<in> set accs" for b
    using books that by (auto simp: rc_books_def list_all_iff rc_card_def)
  have "list_all (\<lambda>b. 0 \<le> acc_delegated_rc b \<and> out' (acc_id b) \<le> int64_max
      \<and> out' (acc_id b) = acc_delegated_rc b + total (\<lambda>e. if rce_from e = acc_id b then expired_delegation e else 0) es')
      (tbl_modify acc_name name (\<lambda>_. a') accs)"
  proof (rule list_all_store [OF a(1) dist(2)])
    fix b assume b: "b \<in> set accs" "acc_name b \<noteq> name"
    then have "acc_id b \<noteq> acc_id a" using inj key by (auto dest: inj_onD)
    then show "0 \<le> acc_delegated_rc b \<and> out' (acc_id b) \<le> int64_max
      \<and> out' (acc_id b) = acc_delegated_rc b + total (\<lambda>e. if rce_from e = acc_id b then expired_delegation e else 0) es'"
      using old [OF b(1)] by (simp add: out'(1) pend)
  qed (use old [OF key(2)] a d' out' in \<open>simp add: pend\<close>)
  moreover have "map acc_id (tbl_modify acc_name name (\<lambda>_. a') accs) = map acc_id accs"
    using a by (intro map_modify_found) auto
  then have "map fst (map rc_card (tbl_modify acc_name name (\<lambda>_. a') accs)) = map acc_id accs"
    by (simp add: rc_card_def comp_def)
  moreover have "rce_from ` set es \<subseteq> acc_id ` set accs"
    using books by (auto simp: rc_books_def list_all_iff rc_card_def)
  then have "rce_from e \<in> acc_id ` set accs" if "e \<in> set es'" for e
    using es'(3) key(2) that by blast
  ultimately show ?thesis
    using es'(1,2) unfolding rc_books_def list_all_iff
    by (auto simp: rc_card_def comp_def simp del: map_map)
qed

lemma rc_out_modify_account [simp]: "rc_out (modify_account n f db) = rc_out db"
  by (simp add: rc_out_def fun_eq_iff)

lemma rc_out_expired [simp]: "rc_out (db\<lparr>rc_expired_delegations := es\<rparr>) = rc_out db"
  by (simp add: rc_out_def fun_eq_iff)

lemma rc_out_nonneg: "rc_rows_ok db \<Longrightarrow> 0 \<le> rc_out db i"
proof -
  have "0 \<le> total (\<lambda>d. if rcd_from d = i then delegated_rc d else 0) ds" if "list_all (\<lambda>d. 0 < delegated_rc d \<and> delegated_rc d \<le> int64_max) ds" for ds
    using that by (induction ds) auto
  then show "rc_rows_ok db \<Longrightarrow> 0 \<le> rc_out db i" unfolding rc_rows_ok_def rc_out_def by blast
qed

lemma rc_quiet_store:
  assumes "rc_rows_ok db" "rc_received_ok db" "tbl_find acc_name n (accounts db) = Some a" "rc_card a' = rc_card a" "received_rc a' = received_rc a"
  shows "rc_removed i 0 db (modify_account n (\<lambda>_. a') db)"
  using store_received [of db "rc_in db" a 0 n a'] assms map_modify_found [of acc_name n "accounts db" a rc_card "\<lambda>_. a'"]
  by (simp add: rc_removed_def rc_received_ok_def rc_card_def [of a] rc_card_def [of a'])

lemma rc_inv_removed: "rc_removed i 0 db db' \<Longrightarrow> rc_inv db \<Longrightarrow> rc_inv db'"
  by (simp add: rc_inv_def rc_removed_def fun_eq_iff [of "rc_out db'", symmetric])

lemma find_card:
  assumes "map rc_card xs = map rc_card ys" "tbl_find acc_name n xs = Some a"
  shows "\<exists>b. tbl_find acc_name n ys = Some b \<and> rc_card b = rc_card a"
  using assms by (induction xs arbitrary: ys) (auto simp: rc_card_def split: if_splits)

text \<open>The final store of an operation: the counter of the account follows what happened to its records.\<close>

lemma rc_inv_settle:
  assumes inv: "rc_inv db" and moved: "rc_removed (acc_id a) n db db1" and a: "tbl_find acc_name name (accounts db1) = Some a"
    and b: "rc_card b = (acc_id a, acc_name a, acc_delegated_rc a - n - m)" "received_rc b = received_rc a" "0 \<le> acc_delegated_rc a - n - m"
    and out: "rc_out db1 (acc_id a) \<le> int64_max"
    and es: "distinct (map rce_from es)" "list_all (\<lambda>e. 0 < expired_delegation e) es"
      "rce_from ` set es \<subseteq> insert (acc_id a) (rce_from ` set (rc_expired_delegations db))"
      "\<And>j. total (\<lambda>e. if rce_from e = j then expired_delegation e else 0) es
        = total (\<lambda>e. if rce_from e = j then expired_delegation e else 0) (rc_expired_delegations db) + (if j = acc_id a then m else 0)"
  shows "rc_inv (modify_account name (\<lambda>_. b) (db1\<lparr>rc_expired_delegations := es\<rparr>))"
proof -
  let ?db = "db1\<lparr>rc_expired_delegations := es\<rparr>"
  have ok: "rc_rows_ok db1" "rc_received_ok db1" "map rc_card (accounts db1) = map rc_card (accounts db)"
    using moved by (simp_all add: rc_removed_def)
  have "rc_books (rc_out db1) es (map rc_card (tbl_modify acc_name name (\<lambda>_. b) (accounts db1)))"
    by (rule rc_books_store [where out = "rc_out db" and n = n and m = m])
      (use inv moved ok a b out es in \<open>auto simp: rc_inv_def rc_removed_def rc_rows_ok_def rc_card_def [of b]\<close>)
  moreover have "rc_rows_ok (modify_account name (\<lambda>_. b) ?db) \<and> rc_received_ok (modify_account name (\<lambda>_. b) ?db)"
    by (rule store_received [where delta = 0 and inb = "rc_in db1"])
      (use ok a b in \<open>auto simp: rc_card_def rc_rows_ok_def rc_in_def rc_received_ok_def\<close>)
  ultimately show ?thesis by (simp add: rc_inv_def)
qed

lemma pending_member:
  "list_all (\<lambda>e. 0 < expired_delegation e \<and> P e) es \<Longrightarrow> e \<in> set es \<Longrightarrow>
   expired_delegation e \<le> total (\<lambda>x. if rce_from x = rce_from e then expired_delegation x else 0) es"
proof (induction es)
  case (Cons x es)
  have "0 \<le> total (\<lambda>x. if rce_from x = rce_from e then expired_delegation x else 0) xs"
    if "list_all (\<lambda>e. 0 < expired_delegation e \<and> P e) xs" for xs
    using that by (induction xs) auto
  from this [of es] show ?case using Cons by auto
qed simp

lemma rc_pending_bound:
  assumes "rc_inv db" "e \<in> set (rc_expired_delegations db)"
  shows "0 < expired_delegation e" "expired_delegation e \<le> int64_max"
proof -
  from assms have pos: "list_all (\<lambda>x. 0 < expired_delegation x \<and> rce_from x \<in> set (map fst (map rc_card (accounts db)))) (rc_expired_delegations db)"
    by (simp add: rc_inv_def rc_books_def)
  then show "0 < expired_delegation e" using assms(2) by (simp add: list_all_iff)
  obtain a where a: "a \<in> set (accounts db)" "acc_id a = rce_from e"
    using pos assms(2) by (auto simp: list_all_iff rc_card_def)
  have "expired_delegation e \<le> total (\<lambda>x. if rce_from x = rce_from e then expired_delegation x else 0) (rc_expired_delegations db)"
    by (rule pending_member [OF pos assms(2)])
  also have "\<dots> \<le> int64_max"
    using assms(1) a by (fastforce simp: rc_inv_def rc_books_def list_all_iff rc_card_def)
  finally show "expired_delegation e \<le> int64_max" .
qed

lemma record_overflow_effect:
  assumes "rc_inv db" "rc_expired_delegations db1 = rc_expired_delegations db" "0 < ov" "ov \<le> int64_max"
  shows "on_ok (record_overflow i ov db1) (\<lambda>db2. \<exists>es. db2 = db1\<lparr>rc_expired_delegations := es\<rparr> \<and> distinct (map rce_from es)
     \<and> list_all (\<lambda>e. 0 < expired_delegation e) es \<and> rce_from ` set es \<subseteq> insert i (rce_from ` set (rc_expired_delegations db))
     \<and> (\<forall>j. total (\<lambda>e. if rce_from e = j then expired_delegation e else 0) es
         = total (\<lambda>e. if rce_from e = j then expired_delegation e else 0) (rc_expired_delegations db) + (if j = i then ov else 0)))"
proof -
  let ?es = "rc_expired_delegations db"
  have es: "distinct (map rce_from ?es)" "list_all (\<lambda>e. 0 < expired_delegation e) ?es"
    using assms(1) by (auto simp: rc_inv_def rc_books_def list_all_iff)
  have c: "cast_u64 ov = ov" using assms by (simp add: cast_simps)
  show ?thesis
  proof (cases "tbl_find rce_from i ?es")
    case None
    let ?es' = "?es @ [\<lparr>rce_from = i, expired_delegation = ov\<rparr>]"
    have "record_overflow i ov db1 = Inr (db1\<lparr>rc_expired_delegations := ?es'\<rparr>)"
      using None assms(2) by (simp add: record_overflow_def c tbl_emplace_def)
    moreover have "distinct (map rce_from ?es')" using None es by (auto simp: tbl_find_none)
    ultimately show ?thesis
      using es(2) assms(3) by (intro on_okI exI [of _ ?es']) auto
  next
    case (Some e)
    have e: "e \<in> set ?es" "rce_from e = i" using tbl_find_key [OF Some] by simp_all
    then have e': "cast_u64 (expired_delegation e + ov) = expired_delegation e + ov" "0 < expired_delegation e"
      using rc_pending_bound [OF assms(1) e(1)] assms by (simp_all add: cast_simps)
    let ?f = "\<lambda>e. e\<lparr>expired_delegation := cast_u64 (expired_delegation e + ov)\<rparr>"
    have m: "map rce_from (tbl_modify rce_from i ?f ?es) = map rce_from ?es" by (rule map_modify_same) simp
    have "list_all (\<lambda>e. 0 < expired_delegation e) (tbl_modify rce_from i ?f ?es)"
      using es e' assms by (intro list_all_store [OF Some]) (auto simp: list_all_iff)
    moreover have "rce_from ` set (tbl_modify rce_from i ?f ?es) = rce_from ` set ?es" using m by (metis list.set_map)
    moreover have "record_overflow i ov db1 = Inr (db1\<lparr>rc_expired_delegations := tbl_modify rce_from i ?f ?es\<rparr>)"
      using Some assms(2) by (simp add: record_overflow_def)
    ultimately show ?thesis
      using es e e' m by (intro on_okI exI [of _ "tbl_modify rce_from i ?f ?es"]) (auto simp: total_modify [OF Some])
  qed
qed

lemma get_maximum_rc_delegable:
  "get_maximum_rc True a = Inr m \<Longrightarrow>
   \<exists>e. get_effective_vesting_shares a = Inr e \<and> m = e - acc_delegated_rc a"
  by (auto simp: get_maximum_rc_def result_simps dest!: ssub_eq_Inr)

text \<open>The shares that back the RC of an account are not negative and fit 63 bits.\<close>

definition effective_ok :: "chain_db \<Rightarrow> string \<Rightarrow> bool" where
  "effective_ok db name \<longleftrightarrow>
     (case get_account db name of Inl _ \<Rightarrow> True | Inr a \<Rightarrow>
        (case get_effective_vesting_shares a of Inl _ \<Rightarrow> True | Inr e \<Rightarrow> 0 \<le> e \<and> e \<le> int64_max))"

lemma rc_inv_account:
  assumes "rc_inv db" "a \<in> set (accounts db)"
  shows "rc_out db (acc_id a) \<le> int64_max" "0 \<le> acc_delegated_rc a" "acc_delegated_rc a \<le> rc_out db (acc_id a)"
proof -
  have "0 \<le> total (\<lambda>e. if rce_from e = j then expired_delegation e else 0) es"
    if "list_all (\<lambda>e. 0 < expired_delegation e \<and> P e) es" for es P j
    using that by (induction es) auto
  then show "rc_out db (acc_id a) \<le> int64_max" "0 \<le> acc_delegated_rc a" "acc_delegated_rc a \<le> rc_out db (acc_id a)"
    using assms unfolding rc_inv_def rc_books_def by (fastforce simp: list_all_iff rc_card_def)+
qed

lemma settle_overflow_inv:
  assumes inv: "rc_inv db" and a: "tbl_find acc_name (acc_name a) (accounts db) = Some a"
    and n: "0 < n" "n \<le> int64_max" "n \<le> acc_delegated_rc a"
  shows "on_ok (settle_overflow a n now db) rc_inv"
proof -
  have ok: "rc_rows_ok db" "rc_received_ok db" using inv by (simp_all add: rc_inv_def)
  have out: "rc_out db (acc_id a) \<le> int64_max"
    using rc_inv_account(1) [OF inv] tbl_find_key [OF a] by simp
  have settle: "on_ok (try_modify_account (acc_name a) (\<lambda>a. rbind (ssub (acc_delegated_rc a) n) (\<lambda>d. Inr (a\<lparr>acc_delegated_rc := d\<rparr>)))
        (db1\<lparr>rc_expired_delegations := es\<rparr>)) rc_inv"
    if moved: "rc_removed (acc_id a) (n - ov) db db1" "0 \<le> ov" "ov \<le> n"
      and es: "distinct (map rce_from es)" "list_all (\<lambda>e. 0 < expired_delegation e) es"
        "rce_from ` set es \<subseteq> insert (acc_id a) (rce_from ` set (rc_expired_delegations db))"
        "\<And>j. total (\<lambda>e. if rce_from e = j then expired_delegation e else 0) es
          = total (\<lambda>e. if rce_from e = j then expired_delegation e else 0) (rc_expired_delegations db) + (if j = acc_id a then ov else 0)"
    for db1 ov es
  proof (rule wp_try_account)
    fix b b'
    assume b: "tbl_find acc_name (acc_name a) (accounts (db1\<lparr>rc_expired_delegations := es\<rparr>)) = Some b"
      and b': "rbind (ssub (acc_delegated_rc b) n) (\<lambda>d. Inr (b\<lparr>acc_delegated_rc := d\<rparr>)) = Inr b'"
    have card: "rc_card b = rc_card a"
      using find_card [of "accounts db1" "accounts db" "acc_name a" b] moved(1) a b by (auto simp: rc_removed_def)
    then have id: "acc_id b = acc_id a" by (simp add: rc_card_def)
    have found: "tbl_find acc_name (acc_name a) (accounts db1) = Some b" using b by simp
    have "rc_card b' = (acc_id b, acc_name b, acc_delegated_rc b - (n - ov) - ov)" "received_rc b' = received_rc b"
      "0 \<le> acc_delegated_rc b - (n - ov) - ov"
      using b' card n by (auto simp: rc_card_def result_simps dest!: ssub_eq_Inr)
    moreover have "rc_out db1 (acc_id b) \<le> int64_max" using moved out id by (simp add: rc_removed_def)
    ultimately show "rc_inv (modify_account (acc_name a) (\<lambda>_. b') (db1\<lparr>rc_expired_delegations := es\<rparr>))"
      using rc_inv_settle [OF inv, unfolded id, OF _ found, unfolded id, OF moved(1) _ _ _ _ es] by (simp only: id)
  qed
  show ?thesis
    unfolding settle_overflow_def
  proof (rule on_ok_rbind [OF remove_delegations_removes [OF ok]], goal_cases)
    case (3 r)
    then obtain db1 ov l where r: "r = (db1, ov, l)" "rc_removed (acc_id a) (n - ov) db db1" "0 \<le> ov" "ov \<le> n"
      by (cases r) auto
    have es: "rc_expired_delegations db1 = rc_expired_delegations db" using r(2) by (simp add: rc_removed_def)
    show ?case
    proof (cases "0 < ov")
      case True
      have ov: "ov \<le> int64_max" using n r(4) by simp
      show ?thesis
        unfolding r(1) prod.case if_P [OF True]
        by (rule on_ok_rbind [OF record_overflow_effect [OF inv es True ov, of "acc_id a"]], elim exE conjE)
          (simp only:, rule settle [OF r(2-4)], simp_all)
    next
      case False
      have same: "db1\<lparr>rc_expired_delegations := rc_expired_delegations db\<rparr> = db1" using es by simp
      have "distinct (map rce_from (rc_expired_delegations db))" "list_all (\<lambda>e. 0 < expired_delegation e) (rc_expired_delegations db)"
        using inv by (auto simp: rc_inv_def rc_books_def list_all_iff)
      then show ?thesis
        using settle [OF r(2-4), of "rc_expired_delegations db"] False r(3) unfolding same
        by (simp add: r(1) subset_insertI)
    qed
  qed (use n in simp_all)
qed

lemma check_delegation_overflow_inv:
  assumes inv: "rc_inv db" and eff: "effective_ok db name"
  shows "on_ok (check_delegation_overflow name now db) rc_inv"
proof (rule on_okI)
  fix db' assume r: "check_delegation_overflow name now db = Inr db'"
  then obtain a where a: "get_account db name = Inr a" "tbl_find acc_name name (accounts db) = Some a"
    by (auto simp: check_delegation_overflow_def result_simps get_account_def)
  show "rc_inv db'"
  proof (cases "db' = db")
    case False
    with r a(1) obtain m where m: "get_maximum_rc True a = Inr m" "0 < cast_i64 (- m)" "settle_overflow a (cast_i64 (- m)) now db = Inr db'"
      by (auto simp: check_delegation_overflow_def result_simps Let_def split: if_splits)
    obtain e where e: "get_effective_vesting_shares a = Inr e" "m = e - acc_delegated_rc a"
      using get_maximum_rc_delegable [OF m(1)] by blast
    have e0: "0 \<le> e" "e \<le> int64_max" using eff a(1) e(1) by (simp_all add: effective_ok_def)
    have "rc_out db (acc_id a) \<le> int64_max" "acc_delegated_rc a \<le> rc_out db (acc_id a)" "0 \<le> acc_delegated_rc a"
      using rc_inv_account [OF inv] tbl_find_key [OF a(2)] by simp_all
    then have "cast_i64 (- m) = - m" using e(2) e0 by (simp add: cast_simps)
    moreover have "tbl_find acc_name (acc_name a) (accounts db) = Some a" using tbl_find_key [OF a(2)] a(2) by simp
    ultimately have "on_ok (settle_overflow a (cast_i64 (- m)) now db) rc_inv"
      using m(2) e e0 cast_i64_range [of "- m"] by (intro settle_overflow_inv inv) (simp_all add: in_int64_def)
    then show ?thesis using m(3) by (simp add: on_okD)
  qed (simp add: inv)
qed

lemma rc_quiet_try:
  assumes "rc_inv db" "\<And>a a'. f a = Inr a' \<Longrightarrow> rc_card a' = rc_card a \<and> received_rc a' = received_rc a"
  shows "on_ok (try_modify_account n f db) rc_inv"
  by (rule wp_try_account, rule rc_inv_removed [OF rc_quiet_store assms(1)]) (use assms in \<open>auto simp: rc_inv_def\<close>)

lemma update_after_vest_change_inv:
  assumes "rc_inv db" "effective_ok db name"
  shows "on_ok (update_account_after_vest_change name now fill check db) rc_inv"
  unfolding update_account_after_vest_change_def
proof (rule on_ok_rbind [where P = rc_inv], goal_cases)
  case 1
  then show ?case using assms by (intro wp check_delegation_overflow_inv)
next
  case (2 db1)
  then show ?case by (rule rc_quiet_try) (auto simp: result_simps Let_def rc_card_def split: if_splits)
qed

lemma regenerate_rc_mana_removed:
  assumes "rc_rows_ok db" "rc_received_ok db"
  shows "on_ok (regenerate_rc_mana name now db) (\<lambda>db'. rc_removed i 0 db db' \<and> rc_direct_delegations db' = rc_direct_delegations db)"
  unfolding regenerate_rc_mana_def
  by (rule wp_try_account) (auto simp: result_simps rc_card_def intro!: rc_quiet_store assms)

section \<open>Expired delegations\<close>

lemma tbl_modify_found_id: "tbl_find key k xs = Some x \<Longrightarrow> tbl_modify key k (\<lambda>_. x) xs = xs"
  by (induction xs) auto

text \<open>One record of an expired delegation is worked off by what its delegator's records lost.\<close>

lemma rc_inv_work_off:
  assumes inv: "rc_inv db" and moved: "rc_removed i n db db1" "0 \<le> n" and a: "a \<in> set (accounts db)" "acc_id a = i"
    and es: "distinct (map rce_from es)" "list_all (\<lambda>e. 0 < expired_delegation e) es"
      "rce_from ` set es \<subseteq> rce_from ` set (rc_expired_delegations db)"
      "\<And>j. total (\<lambda>e. if rce_from e = j then expired_delegation e else 0) es
        = total (\<lambda>e. if rce_from e = j then expired_delegation e else 0) (rc_expired_delegations db) + (if j = i then - n else 0)"
  shows "rc_inv (db1\<lparr>rc_expired_delegations := es\<rparr>)"
proof -
  have "tbl_find acc_name (acc_name a) (accounts db) = Some a"
    using inv a by (intro find_distinct) (simp_all add: rc_inv_def rc_rows_ok_def)
  then obtain b where b: "tbl_find acc_name (acc_name a) (accounts db1) = Some b" "rc_card b = rc_card a"
    using find_card [of "accounts db" "accounts db1" "acc_name a" a] moved(1) by (auto simp: rc_removed_def)
  have id: "acc_id b = i" "acc_delegated_rc b = acc_delegated_rc a" using b(2) a(2) by (simp_all add: rc_card_def)
  have "rc_card b = (i, acc_name b, acc_delegated_rc b - n - (- n))" "0 \<le> acc_delegated_rc b - n - (- n)" "rc_out db1 i \<le> int64_max"
    using rc_inv_account [OF inv a(1)] id moved a(2) by (simp_all add: rc_card_def rc_removed_def)
  moreover have "rce_from ` set es \<subseteq> insert i (rce_from ` set (rc_expired_delegations db))" using es(3) by blast
  ultimately have "rc_inv (modify_account (acc_name a) (\<lambda>_. b) (db1\<lparr>rc_expired_delegations := es\<rparr>))"
    using rc_inv_settle [OF inv, unfolded id, OF _ b(1), unfolded id, OF moved(1) _ _ _ _ es(1,2) _ es(4)] by (simp only: id)
  moreover have "modify_account (acc_name a) (\<lambda>_. b) (db1\<lparr>rc_expired_delegations := es\<rparr>) = db1\<lparr>rc_expired_delegations := es\<rparr>"
    using tbl_modify_found_id [OF b(1)] by (simp add: modify_account_def)
  ultimately show ?thesis by simp
qed

lemma on_ok_eq: "on_ok m P \<Longrightarrow> on_ok m (\<lambda>x. m = Inr x \<and> P x)"
  by (simp add: on_ok_def split: sum.splits)

lemma expired_loop_inv: "rc_inv db \<Longrightarrow> on_ok (expired_loop now limit db) rc_inv"
proof (induction now limit db rule: expired_loop.induct)
  case (1 now limit db)
  show ?case
  proof (cases "rc_expired_delegations db")
    case Nil
    then show ?thesis using 1(2) by (subst expired_loop.simps) (simp add: on_ok_def)
  next
    case (Cons e es)
    have e: "e \<in> set (rc_expired_delegations db)" using Cons by simp
    note bound = rc_pending_bound [OF 1(2) e]
    have c: "cast_i64 (expired_delegation e) = expired_delegation e" using bound by (simp add: cast_simps)
    have inv: "rc_rows_ok db" "rc_received_ok db" "distinct (map rce_from (e # es))" "list_all (\<lambda>e. 0 < expired_delegation e) (e # es)"
      using 1(2) Cons by (auto simp: rc_inv_def rc_books_def list_all_iff)
    obtain a where a: "a \<in> set (accounts db)" "acc_id a = rce_from e"
      using 1(2) Cons by (auto simp: rc_inv_def rc_books_def list_all_iff rc_card_def)
    show ?thesis
    proof (subst expired_loop.simps, simp only: Cons list.case c,
        rule on_ok_rbind [OF on_ok_eq [OF remove_delegations_removes [OF inv(1,2)]]], goal_cases)
      case (3 r)
      then obtain db1 ov l where r: "r = (db1, ov, l)" "rc_removed (rce_from e) (expired_delegation e - ov) db db1" "0 \<le> ov" "ov \<le> expired_delegation e"
        by (cases r) auto
      have es: "rc_expired_delegations db1 = e # es" using r(2) Cons by (simp add: rc_removed_def)
      have part: "rc_inv (db1\<lparr>rc_expired_delegations := e\<lparr>expired_delegation := ov\<rparr> # es\<rparr>)" if "0 < ov"
        by (rule rc_inv_work_off [OF 1(2) r(2) _ a]) (use inv that r(4) Cons in auto)
      have whole: "rc_inv (db1\<lparr>rc_expired_delegations := es\<rparr>)" if "ov = 0"
        by (rule rc_inv_work_off [OF 1(2) r(2) _ a]) (use inv that bound Cons in auto)
      have "on_ok (expired_loop now l (db1\<lparr>rc_expired_delegations := es\<rparr>)) rc_inv" if "ov = 0" "l \<noteq> 0"
        using 1(1) [OF Cons, of r db1 "(ov, l)" ov l] 3(1) r(1) es c whole that by simp
      then show ?case
        using part whole r(3,4) bound unfolding r(1) by (intro wp) (auto simp: es cast_simps)
    qed (use bound in simp_all)
  qed
qed

lemma handle_expired_inv: "rc_inv db \<Longrightarrow> on_ok (handle_expired_delegations db) rc_inv"
  unfolding handle_expired_delegations_def by (intro wp expired_loop_inv)

section \<open>The delegation operation\<close>

lemma set_delegation_effect:
  assumes "rows_good (rc_direct_delegations db)" "0 \<le> max_rc" "max_rc \<le> int64_max"
  shows "on_ok (set_delegation i t max_rc db) (\<lambda>(delta, db'). \<exists>ds. db' = db\<lparr>rc_direct_delegations := ds\<rparr>
    \<and> rows_moved i t (- delta) (rc_direct_delegations db) ds \<and> delta \<le> max_rc)"
proof (cases "tbl_find rcd_key (i, t) (rc_direct_delegations db)")
  case None
  have "rows_moved i t (- max_rc) (rc_direct_delegations db) (rc_direct_delegations db @ [\<lparr>rcd_from = i, rcd_to = t, delegated_rc = max_rc\<rparr>])"
    if "max_rc \<noteq> 0" using that assms None by (intro rows_moved_new) auto
  then show ?thesis
    unfolding set_delegation_def None option.case using assms(2,3) by (intro wp) (auto simp: cast_simps)
next
  case (Some d)
  have d: "0 < delegated_rc d" "delegated_rc d \<le> int64_max"
    using assms(1) tbl_find_key [OF Some] by (auto simp: rows_good_def list_all_iff)
  have c: "cast_i64 (max_rc - delegated_rc d) = max_rc - delegated_rc d" "cast_u64 max_rc = max_rc"
    using d assms by (simp_all add: cast_simps)
  have "rows_moved i t (- (max_rc - delegated_rc d)) (rc_direct_delegations db) (tbl_remove rcd_key (i, t) (rc_direct_delegations db))"
    if "max_rc = 0" using rows_moved_remove [OF assms(1) Some] that by simp
  moreover have "rows_moved i t (- (max_rc - delegated_rc d)) (rc_direct_delegations db)
      (tbl_modify rcd_key (i, t) (\<lambda>r. r\<lparr>delegated_rc := max_rc\<rparr>) (rc_direct_delegations db))" if "max_rc \<noteq> 0"
    using rows_moved_modify [OF assms(1) Some, of "\<lambda>_. max_rc"] that assms by simp
  ultimately show ?thesis
    unfolding set_delegation_def Some option.case c using d by (intro wp_fc_assert wp_Inr) auto
qed

lemma cast_i64_add: "cast_i64 (cast_i64 x + y) = cast_i64 (x + y)"
  by (simp add: cast_i64_def) presburger

lemma delegate_rc_loop_effect:
  assumes "rc_rows_ok db" "rc_received_ok db" "0 \<le> max_rc" "max_rc \<le> int64_max"
  shows "on_ok (delegate_rc_loop tos i max_rc now db (cast_i64 dt)) (\<lambda>(db', dt'). \<exists>T. rc_removed i (- T) db db'
    \<and> dt' = cast_i64 (dt + T) \<and> T \<le> int (length tos) * max_rc)"
  using assms
proof (induction tos arbitrary: db dt)
  case Nil
  have "\<exists>T. rc_removed i (- T) db db \<and> cast_i64 dt = cast_i64 (dt + T) \<and> T \<le> 0"
    by (rule exI [of _ 0]) (simp add: rc_removed_refl Nil)
  then show ?case by (simp add: on_ok_def)
next
  case (Cons to tos)
  show ?case
    unfolding delegate_rc_loop.simps
  proof (rule wp_rbind, rule on_okI, rule on_ok_rbind [OF regenerate_rc_mana_removed [OF Cons.prems(1,2), where i = i]], elim conjE)
    fix a db1
    assume a: "get_account db to = Inr a" and db1: "rc_removed i 0 db db1"
    have ok1: "rc_rows_ok db1" "rc_received_ok db1" using db1 by (simp_all add: rc_removed_def)
    then have good: "rows_good (rc_direct_delegations db1)" by (simp add: rc_rows_ok_def rows_good_def)
    obtain b where b: "tbl_find acc_name to (accounts db1) = Some b" "acc_id b = acc_id a"
      using find_card [of "accounts db" "accounts db1" to a] a db1
      by (auto simp: rc_removed_def rc_card_def get_account_def result_simps)
    show "on_ok (rbind (set_delegation i (acc_id a) max_rc db1) (\<lambda>(delta, db). rbind (update_account_after_rc_delegation to now delta False db)
        (\<lambda>db. delegate_rc_loop tos i max_rc now db (cast_i64 (cast_i64 dt + delta)))))
        (\<lambda>(db', dt'). \<exists>T. rc_removed i (- T) db db' \<and> dt' = cast_i64 (dt + T) \<and> T \<le> int (length (to # tos)) * max_rc)"
    proof (rule on_ok_rbind [OF set_delegation_effect [OF good Cons.prems(3,4)]], clarify)
      fix delta ds
      assume ds: "rows_moved i (acc_id a) (- delta) (rc_direct_delegations db1) ds" "delta \<le> max_rc"
      show "on_ok (rbind (update_account_after_rc_delegation to now delta False (db1\<lparr>rc_direct_delegations := ds\<rparr>))
          (\<lambda>db. delegate_rc_loop tos i max_rc now db (cast_i64 (cast_i64 dt + delta))))
          (\<lambda>(db', dt'). \<exists>T. rc_removed i (- T) db db' \<and> dt' = cast_i64 (dt + T) \<and> T \<le> int (length (to # tos)) * max_rc)"
      proof (rule on_ok_rbind [OF row_change [OF ok1 ds(1) b, of now False, simplified]], elim conjE)
        fix db2 assume db2: "rc_removed i (- delta) db1 db2"
        then have ok2: "rc_rows_ok db2" "rc_received_ok db2" by (simp_all add: rc_removed_def)
        have trans: "rc_removed i (- (delta + T)) db db'" if "rc_removed i (- T) db2 db'" for T db'
          using rc_removed_trans [OF rc_removed_trans [OF db1 db2 refl] that] by simp
        show "on_ok (delegate_rc_loop tos i max_rc now db2 (cast_i64 (cast_i64 dt + delta)))
          (\<lambda>(db', dt'). \<exists>T. rc_removed i (- T) db db' \<and> dt' = cast_i64 (dt + T) \<and> T \<le> int (length (to # tos)) * max_rc)"
          unfolding cast_i64_add
          by (rule on_ok_mono [OF Cons.IH [OF ok2 Cons.prems(3,4)]], clarify, rule exI, intro conjI, rule trans, assumption)
            (use ds(2) in \<open>simp_all add: algebra_simps\<close>)
      qed
    qed
  qed
qed

lemma sadd_le: "sadd a b = Inr c \<Longrightarrow> a \<le> int64_max \<Longrightarrow> c \<le> int64_max"
  by (auto simp: safe_add_def int64_limits_def split: if_splits)

lemma no_pending: "tbl_find rce_from i es = None \<Longrightarrow> total (\<lambda>e. if rce_from e = i then expired_delegation e else 0) es = 0"
  by (induction es) (auto split: if_splits)

lemma pay_delegated_rc_inv:
  assumes inv: "rc_inv db" and a: "tbl_find acc_name name (accounts db) = Some a" and r: "rc_removed (acc_id a) (- T) db db2"
    and T: "T \<le> int64_max" "dt = cast_i64 T" and none: "tbl_find rce_from (acc_id a) (rc_expired_delegations db) = None"
  shows "on_ok (pay_delegated_rc name dt db2) rc_inv"
  unfolding pay_delegated_rc_def
proof (rule wp_try_account)
  fix b b'
  assume b: "tbl_find acc_name name (accounts db2) = Some b"
    and b': "rbind (get_maximum_rc True b) (\<lambda>m. fc_assert (dt \<le> min m (current_mana (rc_manabar b))) ''Account has insufficient RC''
      (let a = (if 0 < dt then b\<lparr>rc_manabar := (rc_manabar b)\<lparr>current_mana := cast_i64 (current_mana (rc_manabar b) - dt)\<rparr>\<rparr> else b) in
       rbind (sadd (acc_delegated_rc a) dt) (\<lambda>d. let a = a\<lparr>acc_delegated_rc := d\<rparr> in
         rbind (get_maximum_rc False a) (\<lambda>mx. Inr (a\<lparr>last_max_rc := mx\<rparr>))))) = Inr b'"
  have card: "rc_card b = rc_card a" using find_card [of "accounts db2" "accounts db" name b] r a b by (auto simp: rc_removed_def)
  then have id: "acc_id b = acc_id a" "acc_delegated_rc b = acc_delegated_rc a" by (simp_all add: rc_card_def)
  have mem: "a \<in> set (accounts db)" using tbl_find_key [OF a] by simp
  have out: "rc_out db2 (acc_id a) = rc_out db (acc_id a) + T" "0 \<le> rc_out db2 (acc_id a)"
    using r rc_out_nonneg [of db2 "acc_id a"] by (simp_all add: rc_removed_def)
  have "dt = T" using T out rc_inv_account [OF inv mem] by (simp add: cast_simps)
  have del: "acc_delegated_rc a = rc_out db (acc_id a)"
    using inv mem no_pending [OF none] by (auto simp: rc_inv_def rc_books_def list_all_iff rc_card_def)
  obtain d where d: "sadd (acc_delegated_rc b) dt = Inr d" "rc_card b' = (acc_id b, acc_name b, d)" "received_rc b' = received_rc b"
    using b' by (auto simp: result_simps Let_def rc_card_def split: if_splits)
  have "d = acc_delegated_rc b - (- T) - 0" using sadd_eq_Inr [OF d(1)] \<open>dt = T\<close> by simp
  moreover have "0 \<le> acc_delegated_rc b - (- T) - 0" using out del id by simp
  moreover have "rc_out db2 (acc_id b) \<le> int64_max"
    using sadd_le [OF d(1)] sadd_eq_Inr [OF d(1)] rc_inv_account [OF inv mem] out del id \<open>dt = T\<close> by simp
  moreover have "distinct (map rce_from (rc_expired_delegations db))" "list_all (\<lambda>e. 0 < expired_delegation e) (rc_expired_delegations db)"
    using inv by (auto simp: rc_inv_def rc_books_def list_all_iff)
  ultimately have "rc_inv (modify_account name (\<lambda>_. b') (db2\<lparr>rc_expired_delegations := rc_expired_delegations db\<rparr>))"
    using rc_inv_settle [OF inv _ b, where n = "- T" and m = 0 and b = b' and es = "rc_expired_delegations db"] r d id
    by (simp add: subset_insertI)
  moreover have "db2\<lparr>rc_expired_delegations := rc_expired_delegations db\<rparr> = db2" using r by (simp add: rc_removed_def)
  ultimately show "rc_inv (modify_account name (\<lambda>_. b') db2)" by (simp only:)
qed

lemma delegate_rc_apply_inv:
  assumes inv: "rc_inv db" and rc: "0 \<le> dr_max_rc op" "int (length (dr_delegatees op)) * dr_max_rc op \<le> int64_max" "dr_delegatees op \<noteq> []"
    and ctl: "in_control \<or> (\<forall>a. get_account db (dr_from op) = Inr a \<longrightarrow> \<not> has_expired_delegation db (acc_id a))"
  shows "on_ok (delegate_rc_apply in_control op db) rc_inv"
proof -
  have "1 * dr_max_rc op \<le> int (length (dr_delegatees op)) * dr_max_rc op"
    using rc(1,3) by (intro mult_right_mono) (auto simp: Suc_le_eq)
  then have max: "dr_max_rc op \<le> int64_max" using rc(2) by simp
  have ok: "rc_rows_ok db" "rc_received_ok db" using inv by (simp_all add: rc_inv_def)
  show ?thesis
  proof (rule on_okI)
    fix db' assume r: "delegate_rc_apply in_control op db = Inr db'"
    show "rc_inv db'"
    proof (cases "has_hardfork db 26")
      case False
      then show ?thesis using r inv by (simp add: delegate_rc_apply_def)
    next
      case True
      with r obtain a db1 db2 dt where a: "get_account db (dr_from op) = Inr a"
        and db1: "regenerate_rc_mana (dr_from op) (gpo_time (gpo db)) db = Inr db1"
        and ex: "in_control \<longrightarrow> \<not> has_expired_delegation db1 (acc_id a)"
        and db2: "delegate_rc_loop (dr_delegatees op) (acc_id a) (dr_max_rc op) (gpo_time (gpo db)) db1 (cast_i64 0) = Inr (db2, dt)"
        and pay: "pay_delegated_rc (dr_from op) dt db2 = Inr db'"
        by (auto simp: delegate_rc_apply_def result_simps Let_def cast_simps split: prod.splits)
      have r1: "rc_removed (acc_id a) 0 db db1"
        using on_okD [OF regenerate_rc_mana_removed [OF ok] db1] by blast
      then obtain T where T: "rc_removed (acc_id a) (- T) db1 db2" "dt = cast_i64 T" "T \<le> int (length (dr_delegatees op)) * dr_max_rc op"
        using on_okD [OF delegate_rc_loop_effect db2] rc(1) max by (auto simp: rc_removed_def)
      have r2: "rc_removed (acc_id a) (- T) db db2" using rc_removed_trans [OF r1 T(1)] by simp
      have found: "tbl_find acc_name (dr_from op) (accounts db) = Some a" using a by (simp add: get_account_def result_simps)
      have "tbl_find rce_from (acc_id a) (rc_expired_delegations db) = None"
        using ctl ex a r1 by (auto simp: has_expired_delegation_def rc_removed_def)
      then show ?thesis
        using on_okD [OF pay_delegated_rc_inv [OF inv found r2] pay] T rc(2) by simp
    qed
  qed
qed

section \<open>Runs\<close>

text \<open>
  The steps that touch RC delegations: a validated delegation whose total fits 63 bits, made
  while no earlier delegation of the account is being taken back (which a node in control
  checks), the update after a change of the vests that back the RC, regeneration, the
  processing of expired delegations, and any change of the vests of an account.
\<close>

inductive rc_step :: "chain_db \<Rightarrow> chain_db \<Rightarrow> bool" where
  delegate: "delegate_rc_validate op = Inr () \<Longrightarrow> int (length (dr_delegatees op)) * dr_max_rc op \<le> int64_max \<Longrightarrow>
    in_control \<or> (\<forall>a. get_account db (dr_from op) = Inr a \<longrightarrow> \<not> has_expired_delegation db (acc_id a)) \<Longrightarrow>
    delegate_rc_apply in_control op db = Inr db' \<Longrightarrow> rc_step db db'"
| regenerate: "regenerate_rc_mana name now db = Inr db' \<Longrightarrow> rc_step db db'"
| vest_change: "effective_ok db name \<Longrightarrow> update_account_after_vest_change name now fill check db = Inr db' \<Longrightarrow> rc_step db db'"
| expired: "handle_expired_delegations db = Inr db' \<Longrightarrow> rc_step db db'"
| vests: "get_account db name = Inr a \<Longrightarrow>
    rc_step db (modify_account name (\<lambda>_. a\<lparr>vesting_shares := v, delegated_vesting_shares := d, received_vesting_shares := r\<rparr>) db)"

inductive_cases rc_stepE: "rc_step db db'"

lemma rc_step_inv: "rc_step db db' \<Longrightarrow> rc_inv db \<Longrightarrow> rc_inv db'"
proof (erule rc_stepE, goal_cases)
  case (1 op in_control)
  have "0 \<le> dr_max_rc op" "dr_delegatees op \<noteq> []" using 1(2) by (auto simp: delegate_rc_validate_def result_simps)
  then show ?case using on_okD [OF delegate_rc_apply_inv [OF 1(1) _ 1(3) _ 1(4)] 1(5)] by simp
next
  case (2 name now)
  then show ?case
    using on_okD [OF regenerate_rc_mana_removed, of db name now db'] rc_inv_removed by (auto simp: rc_inv_def)
next
  case (3 name now fill check)
  then show ?case using on_okD [OF update_after_vest_change_inv] by blast
next
  case 4
  then show ?case using on_okD [OF handle_expired_inv] by blast
next
  case (5 name a v d r)
  have "rc_removed 0 0 db db'"
    unfolding 5(2) using 5(1,3) by (intro rc_quiet_store) (auto simp: rc_inv_def rc_card_def get_account_def result_simps)
  then show ?case using 5(1) by (rule rc_inv_removed)
qed


lemma rc_run_step: "rc_step\<^sup>*\<^sup>* db db1 \<Longrightarrow> rc_step db1 db2 \<Longrightarrow> rc_step\<^sup>*\<^sup>* db db2"
  by (rule rtranclp.rtrancl_into_rtrancl)

definition rc_account :: "nat \<Rightarrow> string \<Rightarrow> int \<Rightarrow> account_object" where
  "rc_account i name v = (new_account i name)\<lparr>vesting_shares := v, last_max_rc := v, rc_manabar := \<lparr>current_mana = v, last_update_time = 1700000000\<rparr>\<rparr>"

definition sample_rc_db :: chain_db where
  "sample_rc_db = sample_db\<lparr>accounts := [rc_account 0 ''alice'' 1000, rc_account 1 ''bob'' 10, rc_account 2 ''carol'' 10,
     rc_account 3 ''dave'' 10, rc_account 4 ''erin'' 10]\<rparr>"

definition sample_delegation :: delegate_rc_operation where
  "sample_delegation = \<lparr>dr_from = ''alice'', dr_delegatees = [''bob'', ''carol''], dr_max_rc = 300\<rparr>"

text \<open>Alice delegates 300 RC to each of two accounts, loses half of its vests and 100 RC come back.\<close>

definition sample_rc_run :: "chain_db result" where
  "sample_rc_run = rbind (delegate_rc_apply False sample_delegation sample_rc_db) (\<lambda>db.
     rbind (get_account db ''alice'') (\<lambda>a.
     update_account_after_vest_change ''alice'' 1700000000 False True (modify_account ''alice'' (\<lambda>_. a\<lparr>vesting_shares := 500,
       delegated_vesting_shares := 0, received_vesting_shares := 0\<rparr>) db)))"


section \<open>Where the books fail\<close>

definition wrapping_delegation :: delegate_rc_operation where
  "wrapping_delegation = \<lparr>dr_from = ''alice'', dr_delegatees = [''bob'', ''carol'', ''dave'', ''erin''], dr_max_rc = 4611686018427387904\<rparr>"


text \<open>Alice owns no vests and waits to take back 50 RC from bob; so does carol with 10 RC.\<close>

definition sample_expired_db :: chain_db where
  "sample_expired_db = sample_db\<lparr>accounts := [rc_account 0 ''alice'' 0, (rc_account 1 ''bob'' 10)\<lparr>received_rc := 60\<rparr>, rc_account 2 ''carol'' 0],
     rc_direct_delegations := [\<lparr>rcd_from = 0, rcd_to = 1, delegated_rc = 50\<rparr>, \<lparr>rcd_from = 2, rcd_to = 1, delegated_rc = 10\<rparr>],
     rc_expired_delegations := [\<lparr>rce_from = 0, expired_delegation = 50\<rparr>, \<lparr>rce_from = 2, expired_delegation = 10\<rparr>]\<rparr>"


end
