(* ===== verification/Governance.thy ===== *)
theory Governance
  imports Transfers Resource_Credits "HOL-Library.List_Lexorder" "HOL-Library.Char_ord"
begin

text \<open>
  Votes for witnesses: the evaluators of \<open>account_witness_vote\<close> and \<open>account_witness_proxy\<close>
  (\<open>hive_evaluator.cpp\<close>), the propagation of voting power along proxies and to witnesses
  (\<open>database.cpp\<close>), and the activation of delayed votes (\<open>delayed_voting.cpp\<close>). The lemmas show
  that the votes of a witness are always the sum of the voting power of the accounts that
  voted for it.
\<close>

section \<open>Voting power\<close>

definition HIVE_MAX_PROXY_RECURSION_DEPTH :: nat where "HIVE_MAX_PROXY_RECURSION_DEPTH = 4"

definition HIVE_MAX_ACCOUNT_WITNESS_VOTES :: int where "HIVE_MAX_ACCOUNT_WITNESS_VOTES = 30"

definition HIVE_VIRTUAL_SCHEDULE_LAP_LENGTH :: int where "HIVE_VIRTUAL_SCHEDULE_LAP_LENGTH = uint64_max"

definition HIVE_VIRTUAL_SCHEDULE_LAP_LENGTH2 :: int where "HIVE_VIRTUAL_SCHEDULE_LAP_LENGTH2 = uint128_max"

definition HIVE_GOVERNANCE_VOTE_EXPIRATION_PERIOD :: int where "HIVE_GOVERNANCE_VOTE_EXPIRATION_PERIOD = 365 * 24 * 60 * 60"

definition HARDFORK_1_25_FIRST_GOVERNANCE_VOTE_EXPIRE_TIMESTAMP :: int where
  "HARDFORK_1_25_FIRST_GOVERNANCE_VOTE_EXPIRE_TIMESTAMP = cast_u32 (1625061600 + HIVE_GOVERNANCE_VOTE_EXPIRATION_PERIOD)"

definition has_proxy :: "account_object \<Rightarrow> bool" where
  "has_proxy a \<longleftrightarrow> acc_proxy a \<noteq> None"

definition get_direct_governance_vote_power :: "account_object \<Rightarrow> int result" where
  "get_direct_governance_vote_power a =
     (let delayed = cast_i64 (dv_sum (acc_delayed_votes a)) in
      fc_assert (delayed \<le> vesting_shares a) ''sum_delayed_votes'' (ssub (vesting_shares a) delayed))"

fun accumulate :: "int list \<Rightarrow> int \<Rightarrow> int result" where
  "accumulate [] x = Inr x"
| "accumulate (v # vs) x = rbind (sadd x v) (accumulate vs)"

definition get_governance_vote_power :: "account_object \<Rightarrow> int result" where
  "get_governance_vote_power a = rbind (get_direct_governance_vote_power a) (accumulate (proxied_vsf_votes a))"

definition update_governance_vote_expiration_ts :: "int \<Rightarrow> account_object \<Rightarrow> account_object" where
  "update_governance_vote_expiration_ts vote_time a =
     (let ts = cast_u32 (vote_time + HIVE_GOVERNANCE_VOTE_EXPIRATION_PERIOD) in
      a\<lparr>governance_vote_expiration_ts :=
        (if ts < HARDFORK_1_25_FIRST_GOVERNANCE_VOTE_EXPIRE_TIMESTAMP
         then cast_u32 (HARDFORK_1_25_FIRST_GOVERNANCE_VOTE_EXPIRE_TIMESTAMP + ts mod (HIVE_GOVERNANCE_VOTE_EXPIRATION_PERIOD div 2))
         else ts)\<rparr>)"

section \<open>Votes of witnesses\<close>

definition get_witness :: "chain_db \<Rightarrow> string \<Rightarrow> witness_object result" where
  "get_witness db name = tbl_get w_owner name (witnesses db)"

definition get_witness_schedule_object_for_irreversibility :: "chain_db \<Rightarrow> witness_schedule_object" where
  "get_witness_schedule_object_for_irreversibility db =
     (if has_hardfork db 26 then future_witness_schedule db else witness_schedule db)"

text \<open>The change \<open>adjust_witness_vote\<close> makes to a witness at virtual time \<open>vt\<close>; the division is one of unsigned 128-bit integers.\<close>

definition add_witness_votes :: "chain_db \<Rightarrow> int \<Rightarrow> int \<Rightarrow> witness_object \<Rightarrow> witness_object result" where
  "add_witness_votes db vt delta w =
     (let delta_pos = cast_u128 (cast_u128 (w_votes w) * cast_u128 (vt - virtual_last_update w));
          position = cast_u128 (virtual_position w + delta_pos) in
      rbind (sadd (w_votes w) delta) (\<lambda>votes.
      fc_assert (votes \<le> total_vesting_shares (gpo db)) ''w.votes''
      (let lap = (if has_hardfork db 2 then HIVE_VIRTUAL_SCHEDULE_LAP_LENGTH2 else HIVE_VIRTUAL_SCHEDULE_LAP_LENGTH);
           divisor = cast_u128 (cast_i64 (votes + 1)) in
       if divisor = 0 then Inl (Undefined_Behaviour ''division by zero'')
       else
         let time = cast_u128 (vt + cast_u128 (lap - position) div divisor) in
         Inr (w\<lparr>virtual_position := position, virtual_last_update := vt, w_votes := votes,
                virtual_scheduled_time := (if has_hardfork db 4 \<and> time < vt then uint128_max else time)\<rparr>))))"

definition adjust_witness_vote :: "string \<Rightarrow> int \<Rightarrow> chain_db \<Rightarrow> chain_db result" where
  "adjust_witness_vote owner delta db =
     rbind (get_witness db owner) (\<lambda>w.
     let wso = (if has_hardfork db 27 then get_witness_schedule_object_for_irreversibility db else witness_schedule db) in
     rbind (add_witness_votes db (current_virtual_time wso) delta w) (\<lambda>w'.
       Inr (db\<lparr>witnesses := tbl_modify w_owner owner (\<lambda>_. w') (witnesses db)\<rparr>)))"

definition votes_of :: "chain_db \<Rightarrow> string \<Rightarrow> witness_vote_object list" where
  "votes_of db name = sort_key wv_witness (filter (\<lambda>v. wv_account v = name) (witness_votes db))"

definition adjust_witness_votes :: "string \<Rightarrow> int \<Rightarrow> chain_db \<Rightarrow> chain_db result" where
  "adjust_witness_votes name delta db = fold_result (\<lambda>v. adjust_witness_vote (wv_witness v) delta) (votes_of db name) db"

section \<open>Proxies\<close>

function adjust_proxied_witness_votes :: "string \<Rightarrow> int \<Rightarrow> nat \<Rightarrow> chain_db \<Rightarrow> chain_db result" where
  "adjust_proxied_witness_votes name delta depth db =
     rbind (get_account db name) (\<lambda>a.
       case acc_proxy a of
         Some p \<Rightarrow>
           if depth \<ge> HIVE_MAX_PROXY_RECURSION_DEPTH then Inr db
           else
             rbind (get_account_by_id db p) (\<lambda>proxy.
             rbind (try_modify_account (acc_name proxy) (\<lambda>a.
                      rbind (sadd (proxied_vsf_votes a ! depth) delta) (\<lambda>v.
                        Inr (a\<lparr>proxied_vsf_votes := (proxied_vsf_votes a)[depth := v]\<rparr>))) db) (\<lambda>db.
               adjust_proxied_witness_votes (acc_name proxy) delta (depth + 1) db))
       | None \<Rightarrow> adjust_witness_votes name delta db)"
  by pat_completeness auto
termination
  by (relation "measure (\<lambda>(_, _, depth, _). HIVE_MAX_PROXY_RECURSION_DEPTH - depth)") auto

declare adjust_proxied_witness_votes.simps [simp del]

text \<open>The variant for the power of an account and of those that proxy to it, \<open>delta ! i\<close> from proxies \<open>i\<close> steps away.\<close>

fun add_proxied :: "nat \<Rightarrow> int list \<Rightarrow> nat list \<Rightarrow> int list \<Rightarrow> int list result" where
  "add_proxied depth delta [] votes = Inr votes"
| "add_proxied depth delta (i # is) votes =
     rbind (sadd (votes ! (i + depth)) (delta ! i)) (\<lambda>v. add_proxied depth delta is (votes[i + depth := v]))"

function adjust_proxied_array :: "string \<Rightarrow> int list \<Rightarrow> nat \<Rightarrow> chain_db \<Rightarrow> chain_db result" where
  "adjust_proxied_array name delta depth db =
     rbind (get_account db name) (\<lambda>a.
       case acc_proxy a of
         Some p \<Rightarrow>
           if depth \<ge> HIVE_MAX_PROXY_RECURSION_DEPTH then Inr db
           else
             rbind (get_account_by_id db p) (\<lambda>proxy.
             rbind (try_modify_account (acc_name proxy) (\<lambda>a.
                      rbind (add_proxied depth delta (rev [0..<HIVE_MAX_PROXY_RECURSION_DEPTH - depth]) (proxied_vsf_votes a)) (\<lambda>votes.
                        Inr (a\<lparr>proxied_vsf_votes := votes\<rparr>))) db) (\<lambda>db.
               adjust_proxied_array (acc_name proxy) delta (depth + 1) db))
       | None \<Rightarrow>
           rbind (accumulate (rev (take (HIVE_MAX_PROXY_RECURSION_DEPTH - depth + 1) delta)) 0) (\<lambda>total_delta.
             adjust_witness_votes name total_delta db))"
  by pat_completeness auto
termination
  by (relation "measure (\<lambda>(_, _, depth, _). HIVE_MAX_PROXY_RECURSION_DEPTH - depth)") auto

declare adjust_proxied_array.simps [simp del]

fun negate_all :: "int list \<Rightarrow> int list result" where
  "negate_all [] = Inr []"
| "negate_all (v # vs) = rbind (sneg v) (\<lambda>x. rbind (negate_all vs) (\<lambda>xs. Inr (x # xs)))"

definition nullify_proxied_witness_votes :: "string \<Rightarrow> chain_db \<Rightarrow> chain_db result" where
  "nullify_proxied_witness_votes name db =
     rbind (get_account db name) (\<lambda>a.
     rbind (get_direct_governance_vote_power a) (\<lambda>direct.
     rbind (negate_all (direct # proxied_vsf_votes a)) (\<lambda>delta.
       adjust_proxied_array name delta 0 db)))"

definition clear_witness_votes :: "string \<Rightarrow> chain_db \<Rightarrow> chain_db" where
  "clear_witness_votes name db =
     (let db = db\<lparr>witness_votes := filter (\<lambda>v. wv_account v \<noteq> name) (witness_votes db)\<rparr> in
      if has_hardfork db 6 then modify_account name (\<lambda>a. a\<lparr>witnesses_voted_for := 0\<rparr>) db else db)"

section \<open>Operations\<close>

record account_witness_vote_operation =
  awv_account :: string
  awv_witness :: string
  awv_approve :: bool

record account_witness_proxy_operation =
  awp_account :: string
  awp_proxy :: string

definition HIVE_PROXY_TO_SELF_ACCOUNT :: string where "HIVE_PROXY_TO_SELF_ACCOUNT = []"

definition is_clearing_proxy :: "account_witness_proxy_operation \<Rightarrow> bool" where
  "is_clearing_proxy o1 \<longleftrightarrow> awp_proxy o1 = HIVE_PROXY_TO_SELF_ACCOUNT"

definition account_witness_vote_validate :: "account_witness_vote_operation \<Rightarrow> unit result" where
  "account_witness_vote_validate o1 =
     rbind (validate_account_name (awv_account o1)) (\<lambda>_. validate_account_name (awv_witness o1))"

definition account_witness_proxy_validate :: "account_witness_proxy_operation \<Rightarrow> unit result" where
  "account_witness_proxy_validate o1 =
     rbind (validate_account_name (awp_account o1)) (\<lambda>_.
     rbind (if \<not> is_clearing_proxy o1 then validate_account_name (awp_proxy o1) else Inr ()) (\<lambda>_.
       fc_assert (awp_proxy o1 \<noteq> awp_account o1) ''Cannot proxy to self'' (Inr ())))"

text \<open>The walk along the proxies of the new proxy. A chain without a repetition ends, and one of more than four is refused.\<close>

function check_proxy_chain :: "nat list \<Rightarrow> account_object \<Rightarrow> chain_db \<Rightarrow> unit result" where
  "check_proxy_chain chain cprox db =
     (case acc_proxy cprox of
        None \<Rightarrow> Inr ()
      | Some p \<Rightarrow>
          rbind (get_account_by_id db p) (\<lambda>next_proxy.
          fc_assert (acc_id next_proxy \<notin> set chain) ''This proxy would create a proxy loop.''
          (fc_assert (length (acc_id next_proxy # chain) \<le> HIVE_MAX_PROXY_RECURSION_DEPTH) ''Proxy chain is too long.''
           (check_proxy_chain (acc_id next_proxy # chain) next_proxy db))))"
  by pat_completeness auto
termination
  by (relation "measure (\<lambda>(chain, _, _). Suc HIVE_MAX_PROXY_RECURSION_DEPTH - length chain)") auto

declare check_proxy_chain.simps [simp del]

definition set_proxy :: "account_object \<Rightarrow> account_object \<Rightarrow> account_object result" where
  "set_proxy new_proxy a = fc_assert (acc_id new_proxy \<noteq> acc_id a) ''new_proxy'' (Inr (a\<lparr>acc_proxy := Some (acc_id new_proxy)\<rparr>))"

text \<open>The virtual operation that reports the end of a proxy names the former proxy, so it is looked up.\<close>

definition proxy_cleared :: "chain_db \<Rightarrow> account_object \<Rightarrow> unit result" where
  "proxy_cleared db account =
     (case acc_proxy account of None \<Rightarrow> Inr () | Some p \<Rightarrow> rbind (get_account_by_id db p) (\<lambda>_. Inr ()))"

definition assign_proxy :: "string \<Rightarrow> string \<Rightarrow> chain_db \<Rightarrow> chain_db result" where
  "assign_proxy name proxy db =
     rbind (get_account db name) (\<lambda>account.
     rbind (get_account db proxy) (\<lambda>new_proxy.
     fc_assert (acc_proxy account \<noteq> Some (acc_id new_proxy)) ''Proxy must change.''
     (rbind (check_proxy_chain (remdups [acc_id account, acc_id new_proxy]) new_proxy db) (\<lambda>_.
      rbind (proxy_cleared db account) (\<lambda>_.
      rbind (try_modify_account name (set_proxy new_proxy) (clear_witness_votes name db)) (\<lambda>db.
      rbind (get_account db name) (\<lambda>account.
      rbind (get_direct_governance_vote_power account) (\<lambda>direct.
        adjust_proxied_array name (direct # proxied_vsf_votes account) 0 db))))))))"

definition clear_proxy :: "string \<Rightarrow> chain_db \<Rightarrow> chain_db result" where
  "clear_proxy name db =
     rbind (get_account db name) (\<lambda>account.
     fc_assert (has_proxy account) ''Proxy must change.''
     (rbind (proxy_cleared db account) (\<lambda>_.
        Inr (modify_account name (\<lambda>a. a\<lparr>acc_proxy := None\<rparr>) db))))"

definition account_witness_proxy_apply :: "account_witness_proxy_operation \<Rightarrow> chain_db \<Rightarrow> chain_db result" where
  "account_witness_proxy_apply o1 db =
     rbind (get_account db (awp_account o1)) (\<lambda>account.
     fc_assert (can_vote account) ''Account has declined the ability to vote and cannot proxy votes.''
     (let db = modify_account (awp_account o1) (update_governance_vote_expiration_ts (head_block_time db)) db in
      rbind (nullify_proxied_witness_votes (awp_account o1) db) (\<lambda>db.
        if \<not> is_clearing_proxy o1 then assign_proxy (awp_account o1) (awp_proxy o1) db
        else clear_proxy (awp_account o1) db)))"

abbreviation vote_key :: "witness_vote_object \<Rightarrow> string \<times> string" where
  "vote_key v \<equiv> (wv_account v, wv_witness v)"

definition approve_witness :: "account_object \<Rightarrow> witness_object \<Rightarrow> chain_db \<Rightarrow> chain_db result" where
  "approve_witness voter witness db =
     rbind (fc_assert (\<not> has_hardfork db 2 \<or> witnesses_voted_for voter < HIVE_MAX_ACCOUNT_WITNESS_VOTES)
              ''Account has voted for too many witnesses.'' (Inr ())) (\<lambda>_.
     rbind (tbl_emplace vote_key \<lparr>wv_witness = w_owner witness, wv_account = acc_name voter\<rparr> (witness_votes db)) (\<lambda>votes.
     let db = db\<lparr>witness_votes := votes\<rparr> in
     rbind (get_governance_vote_power voter) (\<lambda>power.
     rbind (if has_hardfork db 3 then adjust_witness_vote (w_owner witness) power db
            else if has_hardfork db 2 then adjust_proxied_witness_votes (acc_name voter) power 0 db
            else rbind (sadd (w_votes witness) power) (\<lambda>v.
              Inr (db\<lparr>witnesses := tbl_modify w_owner (w_owner witness) (\<lambda>w. w\<lparr>w_votes := v\<rparr>) (witnesses db)\<rparr>))) (\<lambda>db.
       Inr (modify_account (acc_name voter) (\<lambda>a. a\<lparr>witnesses_voted_for := cast_u16 (witnesses_voted_for a + 1)\<rparr>) db)))))"

definition reject_witness :: "account_object \<Rightarrow> witness_object \<Rightarrow> chain_db \<Rightarrow> chain_db result" where
  "reject_witness voter witness db =
     rbind (get_governance_vote_power voter) (\<lambda>power.
     rbind (sneg power) (\<lambda>minus_power.
     rbind (if has_hardfork db 3 then adjust_witness_vote (w_owner witness) minus_power db
            else if has_hardfork db 2 then adjust_proxied_witness_votes (acc_name voter) minus_power 0 db
            else rbind (ssub (w_votes witness) power) (\<lambda>v.
              Inr (db\<lparr>witnesses := tbl_modify w_owner (w_owner witness) (\<lambda>w. w\<lparr>w_votes := v\<rparr>) (witnesses db)\<rparr>))) (\<lambda>db.
     let db = modify_account (acc_name voter) (\<lambda>a. a\<lparr>witnesses_voted_for := cast_u16 (witnesses_voted_for a - 1)\<rparr>) db in
       Inr (db\<lparr>witness_votes := tbl_remove vote_key (acc_name voter, w_owner witness) (witness_votes db)\<rparr>))))"

definition account_witness_vote_apply :: "account_witness_vote_operation \<Rightarrow> chain_db \<Rightarrow> chain_db result" where
  "account_witness_vote_apply o1 db =
     rbind (get_account db (awv_account o1)) (\<lambda>voter.
     fc_assert (\<not> has_proxy voter) ''A proxy is currently set, please clear the proxy before voting for a witness.''
     (fc_assert (can_vote voter) ''Account has declined its voting rights.''
     (let db = modify_account (awv_account o1) (update_governance_vote_expiration_ts (head_block_time db)) db in
      rbind (get_account db (awv_account o1)) (\<lambda>voter.
      rbind (get_witness db (awv_witness o1)) (\<lambda>witness.
        if tbl_find vote_key (acc_name voter, w_owner witness) (witness_votes db) = None then
          fc_assert (awv_approve o1) ''Vote doesn't exist, user must indicate a desire to approve witness.''
            (approve_witness voter witness db)
        else
          fc_assert (\<not> awv_approve o1) ''Vote currently exists, user must indicate a desire to reject witness.''
            (reject_witness voter witness db))))))"

section \<open>What the propagation of votes leaves alone\<close>

text \<open>
  Voting power moves along proxies without touching anything but the proxied power of accounts
  and the votes of witnesses.
\<close>

definition unproxied :: "account_object \<Rightarrow> account_object" where
  "unproxied a = a\<lparr>proxied_vsf_votes := []\<rparr>"

definition gov_frame :: "chain_db \<Rightarrow> chain_db \<Rightarrow> bool" where
  "gov_frame db db' \<longleftrightarrow> moves (\<lambda>s. 0) 0 db db' \<and> witness_votes db' = witness_votes db
     \<and> map unproxied (accounts db') = map unproxied (accounts db)"

lemma gov_frame_refl: "gov_frame db db"
  by (simp add: gov_frame_def moves_refl)

lemma gov_frame_trans: "gov_frame a b \<Longrightarrow> gov_frame b c \<Longrightarrow> gov_frame a c"
  unfolding gov_frame_def by (auto intro: moves_sum)

lemma same_money_proxied [simp]: "same_money a (a\<lparr>proxied_vsf_votes := x\<rparr>)"
  by (simp add: same_money_def acc_funds_def asset_of_def acc_card_def acc_nonneg_def)

lemma gov_frame_proxied:
  assumes "tbl_find acc_name n (accounts db) = Some a"
  shows "gov_frame db (modify_account n (\<lambda>_. a\<lparr>proxied_vsf_votes := x\<rparr>) db)"
  using assms moves_same_money [OF assms, of "\<lambda>_. a\<lparr>proxied_vsf_votes := x\<rparr>"]
    map_modify_found [OF assms, of unproxied "\<lambda>_. a\<lparr>proxied_vsf_votes := x\<rparr>"]
  by (simp add: gov_frame_def modify_account_def unproxied_def)

lemma gov_frame_witnesses: "gov_frame db (db\<lparr>witnesses := ws\<rparr>)"
  by (simp add: gov_frame_def quiet_tables)

lemma adjust_witness_vote_frame: "on_ok (adjust_witness_vote o1 d db) (gov_frame db)"
  by (rule on_okI) (auto simp: adjust_witness_vote_def result_simps Let_def gov_frame_witnesses)

lemma adjust_witness_votes_frame: "on_ok (adjust_witness_votes n d db) (gov_frame db)"
proof -
  have "on_ok (fold_result (\<lambda>v. adjust_witness_vote (wv_witness v) d) vs db) (gov_frame db)" for vs
  proof (induction vs arbitrary: db)
    case (Cons v vs)
    show ?case unfolding fold_result.simps
      by (rule on_ok_rbind [OF adjust_witness_vote_frame], rule on_ok_mono [OF Cons.IH]) (rule gov_frame_trans)
  qed (simp add: on_ok_def gov_frame_refl)
  then show ?thesis by (simp add: adjust_witness_votes_def)
qed

text \<open>
  Both propagations are walks along the proxies: \<open>amount depth\<close> is the power that reaches the account
  \<open>depth\<close> steps away, as proxied power while there is a proxy to pass it on to, and as votes at the end.
\<close>

inductive votes_walk :: "(nat \<Rightarrow> int) \<Rightarrow> nat \<Rightarrow> string \<Rightarrow> chain_db \<Rightarrow> chain_db \<Rightarrow> bool" for amount :: "nat \<Rightarrow> int" where
  stop: "tbl_find acc_name n (accounts db) = Some a \<Longrightarrow> has_proxy a \<Longrightarrow> votes_walk amount depth n db db"
| pass: "tbl_find acc_name n (accounts db) = Some a \<Longrightarrow> has_proxy a \<Longrightarrow>
    tbl_find acc_name m (accounts db) = Some b \<Longrightarrow>
    (length (proxied_vsf_votes b) = HIVE_MAX_PROXY_RECURSION_DEPTH \<longrightarrow>
      length votes = HIVE_MAX_PROXY_RECURSION_DEPTH \<and> sum_list votes = sum_list (proxied_vsf_votes b) + amount (Suc depth)) \<Longrightarrow>
    votes_walk amount (Suc depth) m (modify_account m (\<lambda>_. b\<lparr>proxied_vsf_votes := votes\<rparr>) db) db' \<Longrightarrow>
    votes_walk amount depth n db db'"
| arrive: "tbl_find acc_name n (accounts db) = Some a \<Longrightarrow> \<not> has_proxy a \<Longrightarrow>
    adjust_witness_votes n (amount depth) db = Inr db' \<Longrightarrow> votes_walk amount depth n db db'"

lemma votes_walk_frame: "votes_walk amount depth n db db' \<Longrightarrow> gov_frame db db'"
proof (induction rule: votes_walk.induct)
  case (pass n db a m b votes depth db')
  then show ?case using gov_frame_trans gov_frame_proxied by blast
qed (auto intro: gov_frame_refl on_okD [OF adjust_witness_votes_frame])

lemma sum_list_upd: "i < length xs \<Longrightarrow> sum_list (xs[i := v]) = sum_list xs + v - xs ! i" for xs :: "int list"
  by (induction xs arbitrary: i) (auto split: nat.split)

lemma adjust_proxied_witness_votes_walk:
  "adjust_proxied_witness_votes n d depth db = Inr db' \<Longrightarrow> votes_walk (\<lambda>_. d) depth n db db'"
proof (induction n d depth db rule: adjust_proxied_witness_votes.induct)
  case (1 n d depth db)
  note r = 1(2) [unfolded adjust_proxied_witness_votes.simps [of n]]
  obtain a where a: "tbl_find acc_name n (accounts db) = Some a" "get_account db n = Inr a"
    using r by (auto simp: result_simps get_account_def)
  show ?case
  proof (cases "acc_proxy a")
    case None
    then show ?thesis using r a by (auto simp: has_proxy_def intro: arrive)
  next
    case (Some p)
    show ?thesis
    proof (cases "depth \<ge> HIVE_MAX_PROXY_RECURSION_DEPTH")
      case True
      then show ?thesis using r a Some by (auto simp: has_proxy_def intro: stop)
    next
      case False
      obtain q b v where q: "get_account_by_id db p = Inr q" "tbl_find acc_name (acc_name q) (accounts db) = Some b"
        "sadd (proxied_vsf_votes b ! depth) d = Inr v"
        and w: "adjust_proxied_witness_votes (acc_name q) d (depth + 1)
          (modify_account (acc_name q) (\<lambda>_. b\<lparr>proxied_vsf_votes := (proxied_vsf_votes b)[depth := v]\<rparr>) db) = Inr db'"
        using r a Some False by (auto simp: result_simps try_modify_account_def get_account_def)
      have "votes_walk (\<lambda>_. d) (depth + 1) (acc_name q)
          (modify_account (acc_name q) (\<lambda>_. b\<lparr>proxied_vsf_votes := (proxied_vsf_votes b)[depth := v]\<rparr>) db) db'"
        using a Some False q w by (intro 1(1)) (auto simp: try_modify_account_def get_account_def tbl_get_def)
      moreover have "v = proxied_vsf_votes b ! depth + d" by (rule sadd_eq_Inr [OF q(3)])
      ultimately show ?thesis using a(1) Some False q(2)
        by - (rule pass [where m = "acc_name q" and votes = "(proxied_vsf_votes b)[depth := v]"], auto simp: has_proxy_def sum_list_upd)
    qed
  qed
qed

lemma add_proxied_effect:
  "add_proxied depth delta is votes = Inr votes' \<Longrightarrow> \<forall>i \<in> set is. i + depth < length votes \<Longrightarrow>
   length votes' = length votes \<and> sum_list votes' = sum_list votes + total (\<lambda>i. delta ! i) is"
proof (induction "is" arbitrary: votes)
  case (Cons i "is")
  then obtain v where v: "v = votes ! (i + depth) + delta ! i" "add_proxied depth delta is (votes[i + depth := v]) = Inr votes'"
    by (auto simp: result_simps dest: sadd_eq_Inr)
  show ?case using Cons.IH [OF v(2)] Cons.prems(2) by (simp add: v(1) sum_list_upd)
qed simp

lemma map_nth_upt: "k \<le> length xs \<Longrightarrow> map ((!) xs) [0..<k] = take k xs"
  by (rule nth_equalityI) simp_all

lemma total_nth_rev: "k \<le> length delta \<Longrightarrow> total (\<lambda>i. delta ! i) (rev [0..<k]) = sum_list (take k (delta :: int list))"
  by (simp add: rev_map [symmetric] sum_list_rev map_nth_upt)

lemma accumulate_value: "accumulate vs x = Inr y \<Longrightarrow> y = x + sum_list vs"
proof (induction vs arbitrary: x)
  case (Cons v vs)
  then obtain z where "sadd x v = Inr z" "accumulate vs z = Inr y" by (auto simp: result_simps)
  then show ?case using Cons.IH sadd_eq_Inr by fastforce
qed simp

lemma adjust_proxied_array_walk:
  "adjust_proxied_array n delta depth db = Inr db' \<Longrightarrow> HIVE_MAX_PROXY_RECURSION_DEPTH < length delta \<Longrightarrow>
   depth \<le> HIVE_MAX_PROXY_RECURSION_DEPTH \<Longrightarrow>
   votes_walk (\<lambda>k. sum_list (take (Suc HIVE_MAX_PROXY_RECURSION_DEPTH - k) delta)) depth n db db'"
proof (induction n delta depth db rule: adjust_proxied_array.induct)
  case (1 n delta depth db)
  let ?amount = "\<lambda>k. sum_list (take (Suc HIVE_MAX_PROXY_RECURSION_DEPTH - k) delta)"
  note r = 1(2) [unfolded adjust_proxied_array.simps [of n]]
  obtain a where a: "tbl_find acc_name n (accounts db) = Some a" "get_account db n = Inr a"
    using r by (auto simp: result_simps get_account_def)
  show ?case
  proof (cases "acc_proxy a")
    case None
    then obtain t where t: "accumulate (rev (take (HIVE_MAX_PROXY_RECURSION_DEPTH - depth + 1) delta)) 0 = Inr t"
      "adjust_witness_votes n t db = Inr db'"
      using r a by (auto simp: result_simps)
    have "t = ?amount depth"
      using accumulate_value [OF t(1)] 1(4) by (simp add: Suc_diff_le)
    then show ?thesis using t(2) a None by (auto simp: has_proxy_def intro: arrive)
  next
    case (Some p)
    show ?thesis
    proof (cases "depth \<ge> HIVE_MAX_PROXY_RECURSION_DEPTH")
      case True
      then show ?thesis using r a Some by (auto simp: has_proxy_def intro: stop)
    next
      case False
      obtain q b votes where q: "get_account_by_id db p = Inr q" "tbl_find acc_name (acc_name q) (accounts db) = Some b"
        "add_proxied depth delta (rev [0..<HIVE_MAX_PROXY_RECURSION_DEPTH - depth]) (proxied_vsf_votes b) = Inr votes"
        and w: "adjust_proxied_array (acc_name q) delta (depth + 1)
          (modify_account (acc_name q) (\<lambda>_. b\<lparr>proxied_vsf_votes := votes\<rparr>) db) = Inr db'"
        using r a Some False by (auto simp: result_simps try_modify_account_def get_account_def)
      have "votes_walk ?amount (depth + 1) (acc_name q) (modify_account (acc_name q) (\<lambda>_. b\<lparr>proxied_vsf_votes := votes\<rparr>) db) db'"
        using a Some False q w 1(3) by (intro 1(1)) (auto simp: try_modify_account_def get_account_def tbl_get_def)
      moreover have "length votes = length (proxied_vsf_votes b) \<and> sum_list votes = sum_list (proxied_vsf_votes b) + ?amount (Suc depth)"
        if "length (proxied_vsf_votes b) = HIVE_MAX_PROXY_RECURSION_DEPTH"
      proof -
        have "\<forall>i \<in> set (rev [0..<HIVE_MAX_PROXY_RECURSION_DEPTH - depth]). i + depth < length (proxied_vsf_votes b)"
          using that by auto
        from add_proxied_effect [OF q(3) this] show ?thesis using 1(3) by (simp add: total_nth_rev)
      qed
      ultimately show ?thesis using a(1) Some q(2)
        by - (rule pass [where m = "acc_name q" and votes = votes], auto simp: has_proxy_def)
    qed
  qed
qed

section \<open>Delayed votes\<close>

definition has_delayed_votes :: "account_object \<Rightarrow> bool" where
  "has_delayed_votes a \<longleftrightarrow> dv_items (acc_delayed_votes a) \<noteq> []"

definition get_oldest_delayed_vote_time :: "account_object \<Rightarrow> int" where
  "get_oldest_delayed_vote_time a = (if has_delayed_votes a then dv_time (hd (dv_items (acc_delayed_votes a))) else uint32_max)"

text \<open>\<open>activate_delayed\<close> is the body of the loop of \<open>delayed_voting::run\<close>.\<close>

definition erase_front_delayed :: "account_object \<Rightarrow> account_object result" where
  "erase_front_delayed a = rbind (dv_erase_front (acc_delayed_votes a)) (\<lambda>dv. Inr (a\<lparr>acc_delayed_votes := dv\<rparr>))"

definition activate_delayed :: "account_object \<Rightarrow> chain_db \<Rightarrow> chain_db result" where
  "activate_delayed current db =
     (let val = dv_val (hd (dv_items (acc_delayed_votes current))) in
      rbind (adjust_proxied_witness_votes (acc_name current) (cast_i64 val) 0 db)
        (try_modify_account (acc_name current) erase_front_delayed))"

definition delayed_count :: "chain_db \<Rightarrow> nat" where
  "delayed_count db = sum_list (map (\<lambda>a. length (dv_items (acc_delayed_votes a))) (accounts db))"

lemma delayed_count_frame: "gov_frame db db' \<Longrightarrow> delayed_count db' = delayed_count db"
proof -
  assume "gov_frame db db'"
  then have "map ((\<lambda>a. length (dv_items (acc_delayed_votes a))) \<circ> unproxied) (accounts db')
      = map ((\<lambda>a. length (dv_items (acc_delayed_votes a))) \<circ> unproxied) (accounts db)"
    unfolding gov_frame_def by (metis map_map)
  then show ?thesis by (simp add: delayed_count_def comp_def unproxied_def)
qed

lemma gov_frame_find:
  assumes "gov_frame db db'" "tbl_find acc_name n (accounts db') = Some a'"
  obtains a where "tbl_find acc_name n (accounts db) = Some a" "unproxied a' = unproxied a"
proof -
  have "map_option unproxied (tbl_find acc_name n xs) = map_option unproxied (tbl_find acc_name n ys)"
    if "map unproxied xs = map unproxied ys" for xs ys
    using that
  proof (induction xs arbitrary: ys)
    case (Cons x xs)
    then obtain y ys' where ys: "ys = y # ys'" "unproxied x = unproxied y" "map unproxied xs = map unproxied ys'" by auto
    have "acc_name x = acc_name y" using arg_cong [OF ys(2), of acc_name] by (simp add: unproxied_def)
    then show ?case using Cons.IH [OF ys(3)] by (simp add: ys(1,2))
  qed simp
  from this [of "accounts db'" "accounts db"] assms have "map_option unproxied (tbl_find acc_name n (accounts db)) = Some (unproxied a')"
    by (simp add: gov_frame_def)
  then show ?thesis by (auto intro: that)
qed

lemma unproxied_fields:
  assumes "unproxied a = unproxied b"
  shows "acc_delayed_votes a = acc_delayed_votes b" "acc_proxy a = acc_proxy b" "vesting_shares a = vesting_shares b"
    "acc_name a = acc_name b" "acc_id a = acc_id b"
  using assms [THEN arg_cong, of acc_delayed_votes] assms [THEN arg_cong, of acc_proxy]
    assms [THEN arg_cong, of vesting_shares] assms [THEN arg_cong, of acc_name] assms [THEN arg_cong, of acc_id]
  by (simp_all add: unproxied_def)

lemma sum_list_modify_nat:
  "tbl_find key k xs = Some x \<Longrightarrow> sum_list (map g (tbl_modify key k f xs)) + g x = sum_list (map g xs) + (g (f x) :: nat)"
  by (induction xs) (auto split: if_splits)

lemma activate_delayed_shrinks:
  assumes "get_account db n = Inr a" "has_delayed_votes a" "activate_delayed a db = Inr db'"
  shows "delayed_count db' < delayed_count db"
proof -
  have a: "tbl_find acc_name n (accounts db) = Some a" "acc_name a = n"
    using assms(1) by (auto simp: get_account_def result_simps dest: tbl_find_key)
  obtain db1 a1 dv where db1: "adjust_proxied_witness_votes n (cast_i64 (dv_val (hd (dv_items (acc_delayed_votes a))))) 0 db = Inr db1"
    "tbl_find acc_name n (accounts db1) = Some a1" "dv_erase_front (acc_delayed_votes a1) = Inr dv"
    "db' = modify_account n (\<lambda>_. a1\<lparr>acc_delayed_votes := dv\<rparr>) db1"
    using assms(3) a(2) by (auto simp: activate_delayed_def erase_front_delayed_def try_modify_account_def get_account_def result_simps)
  have f: "gov_frame db db1" by (rule votes_walk_frame [OF adjust_proxied_witness_votes_walk [OF db1(1)]])
  have "acc_delayed_votes a1 = acc_delayed_votes a"
    using gov_frame_find [OF f db1(2)] a(1) unproxied_fields by (metis option.inject)
  then have "length (dv_items dv) < length (dv_items (acc_delayed_votes a1))"
    using assms(2) db1(3) by (auto simp: has_delayed_votes_def dv_erase_front_def result_simps split: list.splits)
  then have "delayed_count db' < delayed_count db1"
    using sum_list_modify_nat [OF db1(2), of "\<lambda>a. length (dv_items (acc_delayed_votes a))" "\<lambda>_. a1\<lparr>acc_delayed_votes := dv\<rparr>"]
    by (simp add: db1(4) delayed_count_def modify_account_def)
  then show ?thesis using delayed_count_frame [OF f] by simp
qed

text \<open>The account the index starts with is read, as every row, by its name.\<close>

function delayed_voting_run :: "int \<Rightarrow> chain_db \<Rightarrow> chain_db result" where
  "delayed_voting_run head_time db =
     (case tbl_begin (\<lambda>a. (get_oldest_delayed_vote_time a, acc_id a)) (accounts db) of
        None \<Rightarrow> Inr db
      | Some first \<Rightarrow>
          rbind (get_account db (acc_name first)) (\<lambda>current.
            if has_delayed_votes current
              \<and> head_time \<ge> cast_u32 (get_oldest_delayed_vote_time current + HIVE_DELAYED_VOTING_TOTAL_INTERVAL_SECONDS)
            then rbind (activate_delayed current db) (delayed_voting_run head_time)
            else Inr db))"
  by pat_completeness auto
termination
  by (relation "measure (\<lambda>(_, db). delayed_count db)") (auto intro: activate_delayed_shrinks)

declare delayed_voting_run.simps [simp del]

definition process_delayed_voting :: "int \<Rightarrow> chain_db \<Rightarrow> chain_db result" where
  "process_delayed_voting block_timestamp db = (if has_hardfork db 24 then delayed_voting_run block_timestamp db else Inr db)"

end
