(* ===== verification/Vote_Tally.thy ===== *)
theory Vote_Tally
  imports Governance
begin

text \<open>
  The votes of every witness are the sum of the voting power of the accounts that voted for it,
  after every operation on votes and proxies and every activation of delayed votes.
\<close>

section \<open>The tally of votes\<close>

definition vote_power :: "account_object \<Rightarrow> int" where
  "vote_power a = vesting_shares a - dv_sum (acc_delayed_votes a) + sum_list (proxied_vsf_votes a)"

definition power_of :: "chain_db \<Rightarrow> string \<Rightarrow> int" where
  "power_of db n = (case tbl_find acc_name n (accounts db) of None \<Rightarrow> 0 | Some a \<Rightarrow> vote_power a)"

text \<open>
  \<open>gov_at e db\<close>: the tables are well formed, who votes has no proxy, and the votes of every witness
  are the power of its voters up to an error \<open>e\<close> per voter, which an operation makes and repairs.
\<close>

definition voter_ok :: "account_object \<Rightarrow> bool" where
  "voter_ok a \<longleftrightarrow> length (proxied_vsf_votes a) = HIVE_MAX_PROXY_RECURSION_DEPTH
     \<and> list_all (\<lambda>i. 0 \<le> dv_val i) (dv_items (acc_delayed_votes a))
     \<and> dv_sum (acc_delayed_votes a) = sum_vals (dv_items (acc_delayed_votes a))
     \<and> dv_sum (acc_delayed_votes a) \<le> int64_max"

definition may_vote :: "chain_db \<Rightarrow> witness_vote_object \<Rightarrow> bool" where
  "may_vote db v \<longleftrightarrow> (case tbl_find acc_name (wv_account v) (accounts db) of None \<Rightarrow> False | Some a \<Rightarrow> \<not> has_proxy a)"

definition gov_tables :: "chain_db \<Rightarrow> bool" where
  "gov_tables db \<longleftrightarrow> distinct (map acc_name (accounts db)) \<and> distinct (map acc_id (accounts db))
     \<and> distinct (map w_owner (witnesses db)) \<and> distinct (map vote_key (witness_votes db))
     \<and> list_all voter_ok (accounts db) \<and> list_all (may_vote db) (witness_votes db)"

definition tally :: "(string \<Rightarrow> int) \<Rightarrow> chain_db \<Rightarrow> string \<Rightarrow> int" where
  "tally e db w = total (\<lambda>v. if wv_witness v = w then power_of db (wv_account v) - e (wv_account v) else 0) (witness_votes db)"

definition gov_at :: "(string \<Rightarrow> int) \<Rightarrow> chain_db \<Rightarrow> bool" where
  "gov_at e db \<longleftrightarrow> gov_tables db \<and> list_all (\<lambda>w. w_votes w = tally e db (w_owner w)) (witnesses db)"

abbreviation gov_ok :: "chain_db \<Rightarrow> bool" where "gov_ok \<equiv> gov_at (\<lambda>_. 0)"

lemma find_store:
  "tbl_find key k xs = Some x \<Longrightarrow> key x' = k \<Longrightarrow> tbl_find key j (tbl_modify key k (\<lambda>_. x') xs) = (if j = k then Some x' else tbl_find key j xs)"
  by (induction xs) auto

definition votes_shift :: "(string \<Rightarrow> int) \<Rightarrow> witness_object list \<Rightarrow> witness_object list \<Rightarrow> bool" where
  "votes_shift g ws ws' \<longleftrightarrow> list_all2 (\<lambda>w w'. w_owner w' = w_owner w \<and> w_votes w' = w_votes w + g (w_owner w)) ws ws'"

lemma votes_shift_owners: "votes_shift g ws ws' \<Longrightarrow> map w_owner ws' = map w_owner ws"
  unfolding votes_shift_def by (induction rule: list_all2_induct) auto

lemma votes_shift_refl: "votes_shift (\<lambda>_. 0) ws ws"
  by (simp add: votes_shift_def list_all2_refl)

lemma votes_shift_trans: "votes_shift g a b \<Longrightarrow> votes_shift h b c \<Longrightarrow> (\<And>x. k x = g x + h x) \<Longrightarrow> votes_shift k a c"
  unfolding votes_shift_def by (rule list_all2_trans [of _ _ _ a b c]) auto

lemma votes_shift_store:
  assumes "distinct (map w_owner ws)" "tbl_find w_owner o1 ws = Some w" "w_owner w' = o1" "w_votes w' = w_votes w + d"
  shows "votes_shift (\<lambda>x. if x = o1 then d else 0) ws (tbl_modify w_owner o1 (\<lambda>_. w') ws)"
  using assms
proof (induction ws)
  case (Cons x xs)
  have "votes_shift (\<lambda>x. if x = o1 then d else 0) xs xs" if "o1 \<notin> w_owner ` set xs"
    using that by (auto simp: votes_shift_def list_all2_same)
  then show ?case using Cons by (cases "w_owner x = o1") (auto simp: votes_shift_def)
qed simp

lemma add_witness_votes_effect:
  "on_ok (add_witness_votes db vt d w) (\<lambda>w'. w_owner w' = w_owner w \<and> w_votes w' = w_votes w + d)"
  unfolding add_witness_votes_def Let_def by (intro wp) simp_all

lemma adjust_witness_vote_effect:
  assumes "distinct (map w_owner (witnesses db))"
  shows "on_ok (adjust_witness_vote o1 d db)
    (\<lambda>db'. \<exists>ws. db' = db\<lparr>witnesses := ws\<rparr> \<and> votes_shift (\<lambda>x. if x = o1 then d else 0) (witnesses db) ws)"
proof (rule on_okI)
  fix db' assume "adjust_witness_vote o1 d db = Inr db'"
  then obtain w w' vt where w: "tbl_find w_owner o1 (witnesses db) = Some w" "add_witness_votes db vt d w = Inr w'"
    "db' = db\<lparr>witnesses := tbl_modify w_owner o1 (\<lambda>_. w') (witnesses db)\<rparr>"
    by (auto simp: adjust_witness_vote_def get_witness_def result_simps Let_def)
  have "w_owner w' = o1" "w_votes w' = w_votes w + d"
    using on_okD [OF add_witness_votes_effect w(2)] tbl_find_key [OF w(1)] by simp_all
  then show "\<exists>ws. db' = db\<lparr>witnesses := ws\<rparr> \<and> votes_shift (\<lambda>x. if x = o1 then d else 0) (witnesses db) ws"
    using votes_shift_store [OF assms w(1)] w(3) by blast
qed

lemma adjust_witness_votes_fold:
  "distinct (map w_owner (witnesses db)) \<Longrightarrow>
   on_ok (fold_result (\<lambda>v. adjust_witness_vote (wv_witness v) d) vs db)
    (\<lambda>db'. \<exists>ws. db' = db\<lparr>witnesses := ws\<rparr> \<and> votes_shift (\<lambda>x. total (\<lambda>v. if wv_witness v = x then d else 0) vs) (witnesses db) ws)"
proof (induction vs arbitrary: db)
  case Nil
  show ?case
    by (simp add: on_ok_def) (rule exI [of _ "witnesses db"], simp add: votes_shift_refl)
next
  case (Cons v vs)
  show ?case
    unfolding fold_result.simps
  proof (rule on_ok_rbind [OF adjust_witness_vote_effect [OF Cons.prems]], elim exE conjE)
    fix db1 ws
    assume db1: "db1 = db\<lparr>witnesses := ws\<rparr>" "votes_shift (\<lambda>x. if x = wv_witness v then d else 0) (witnesses db) ws"
    have "distinct (map w_owner (witnesses db1))" using Cons.prems votes_shift_owners [OF db1(2)] db1(1) by simp
    from Cons.IH [OF this] show "on_ok (fold_result (\<lambda>v. adjust_witness_vote (wv_witness v) d) vs db1)
        (\<lambda>db'. \<exists>ws. db' = db\<lparr>witnesses := ws\<rparr> \<and> votes_shift (\<lambda>x. total (\<lambda>v. if wv_witness v = x then d else 0) (v # vs)) (witnesses db) ws)"
    proof (rule on_ok_mono, elim exE conjE)
      fix db' ws' assume ws': "db' = db1\<lparr>witnesses := ws'\<rparr>"
        "votes_shift (\<lambda>x. total (\<lambda>v. if wv_witness v = x then d else 0) vs) (witnesses db1) ws'"
      then have "votes_shift (\<lambda>x. total (\<lambda>v. if wv_witness v = x then d else 0) (v # vs)) (witnesses db) ws'"
        by (intro votes_shift_trans [OF db1(2)]) (auto simp: db1(1))
      then show "\<exists>ws. db' = db\<lparr>witnesses := ws\<rparr> \<and> votes_shift (\<lambda>x. total (\<lambda>v. if wv_witness v = x then d else 0) (v # vs)) (witnesses db) ws"
        using ws'(1) by (auto simp: db1(1))
    qed
  qed
qed

lemma total_sort_key: "total g (sort_key f xs) = total g xs"
proof -
  have "total g (insort_key f x xs) = g x + total g xs" for x xs
    by (induction xs) auto
  then show ?thesis by (induction xs) simp_all
qed

lemma total_votes_of:
  "total (\<lambda>v. if wv_witness v = x then d else 0) (votes_of db n)
     = total (\<lambda>v. if wv_witness v = x \<and> wv_account v = n then d else 0) (witness_votes db)"
proof -
  have "total (\<lambda>v. if wv_witness v = x then d else 0) (filter (\<lambda>v. wv_account v = n) vs)
      = total (\<lambda>v. if wv_witness v = x \<and> wv_account v = n then d else 0) vs" for vs :: "witness_vote_object list"
    by (induction vs) auto
  then show ?thesis by (simp add: votes_of_def total_sort_key)
qed

lemma tally_shift: "tally (e(n := e n - d)) db x = tally e db x + total (\<lambda>v. if wv_witness v = x \<and> wv_account v = n then d else 0) (witness_votes db)"
proof -
  have "total (\<lambda>v. if wv_witness v = x then power_of db (wv_account v) - (e(n := e n - d)) (wv_account v) else 0) vs
      = total (\<lambda>v. if wv_witness v = x then power_of db (wv_account v) - e (wv_account v) else 0) vs
        + total (\<lambda>v. if wv_witness v = x \<and> wv_account v = n then d else 0) vs" for vs
    by (induction vs) auto
  then show ?thesis by (simp add: tally_def)
qed

lemma power_of_tables [simp]:
  "power_of (db\<lparr>witnesses := ws\<rparr>) = power_of db" "power_of (db\<lparr>witness_votes := vs\<rparr>) = power_of db"
  by (simp_all add: power_of_def fun_eq_iff)

lemma may_vote_tables [simp]:
  "may_vote (db\<lparr>witnesses := ws\<rparr>) = may_vote db" "may_vote (db\<lparr>witness_votes := vs\<rparr>) = may_vote db"
  by (simp_all add: may_vote_def fun_eq_iff)

text \<open>The votes of witnesses and the records of votes change together.\<close>

lemma gov_recount:
  assumes "gov_at e db" "votes_shift g (witnesses db) ws" "\<And>x. tally e' (db\<lparr>witness_votes := vs\<rparr>) x = tally e db x + g x"
    "list_all (may_vote db) vs" "distinct (map vote_key vs)"
  shows "gov_at e' (db\<lparr>witnesses := ws, witness_votes := vs\<rparr>)"
proof -
  have "tally e' (db\<lparr>witnesses := ws, witness_votes := vs\<rparr>) x = tally e db x + g x" for x
    using assms(3) [of x] by (simp add: tally_def cong: if_cong)
  moreover have "list_all (\<lambda>w. w_votes w = tally e db (w_owner w) + g (w_owner w)) ws"
    using assms(1,2) unfolding votes_shift_def gov_at_def list_all_length list_all2_conv_all_nth by auto
  ultimately show ?thesis
    using assms votes_shift_owners [OF assms(2)] by (simp add: gov_at_def gov_tables_def)
qed

lemma adjust_witness_votes_gov:
  assumes "gov_at e db" "adjust_witness_votes n d db = Inr db'"
  shows "gov_at (e(n := e n - d)) db'"
proof -
  have "distinct (map w_owner (witnesses db))" using assms(1) by (simp add: gov_at_def gov_tables_def)
  then obtain ws where ws: "db' = db\<lparr>witnesses := ws\<rparr>"
    "votes_shift (\<lambda>x. total (\<lambda>v. if wv_witness v = x \<and> wv_account v = n then d else 0) (witness_votes db)) (witnesses db) ws"
    using on_okD [OF adjust_witness_votes_fold [of db d "votes_of db n", folded adjust_witness_votes_def] assms(2)]
    by (auto simp: total_votes_of)
  have "gov_at (e(n := e n - d)) (db\<lparr>witnesses := ws, witness_votes := witness_votes db\<rparr>)"
    using assms(1) by (intro gov_recount [OF assms(1) ws(2)]) (simp_all add: tally_shift gov_at_def gov_tables_def)
  then show ?thesis by (simp add: ws(1))
qed

section \<open>Changes of accounts\<close>

lemma gov_irrelevant:
  assumes "gov_at e db" "\<And>v. v \<in> set (witness_votes db) \<Longrightarrow> wv_account v \<noteq> n \<Longrightarrow> e' (wv_account v) = e (wv_account v)"
    "n \<notin> wv_account ` set (witness_votes db)"
  shows "gov_at e' db"
proof -
  have "tally e' db x = tally e db x" for x
    unfolding tally_def using assms(2,3) by (intro arg_cong [of _ _ sum_list] map_cong) auto
  then show ?thesis using assms(1) by (simp add: gov_at_def)
qed

lemma gov_silent: "gov_at e db \<Longrightarrow> n \<notin> wv_account ` set (witness_votes db) \<Longrightarrow> gov_at (e(n := x)) db"
  by (rule gov_irrelevant) auto

lemma gov_store:
  assumes "gov_at e db" "tbl_find acc_name n (accounts db) = Some a" "acc_name a' = n" "acc_id a' = acc_id a" "voter_ok a'"
    and p: "has_proxy a' \<Longrightarrow> \<not> has_proxy a \<Longrightarrow> n \<notin> wv_account ` set (witness_votes db)"
  shows "gov_at (e(n := e n + (vote_power a' - vote_power a))) (modify_account n (\<lambda>_. a') db)"
proof -
  let ?db = "modify_account n (\<lambda>_. a') db"
  have n: "acc_name a = n" using tbl_find_key [OF assms(2)] by simp
  have find: "tbl_find acc_name m (accounts ?db) = (if m = n then Some a' else tbl_find acc_name m (accounts db))" for m
    unfolding modify_account_def by (simp add: find_store [OF assms(2,3)])
  have "power_of ?db m = power_of db m + (if m = n then vote_power a' - vote_power a else 0)" for m
    unfolding power_of_def find using assms(2) by auto
  then have "tally (e(n := e n + (vote_power a' - vote_power a))) ?db x = tally e db x" for x
    unfolding tally_def by (intro arg_cong [of _ _ sum_list] map_cong) auto
  moreover have "map acc_name (accounts ?db) = map acc_name (accounts db)" "map acc_id (accounts ?db) = map acc_id (accounts db)"
    using assms(3,4) n by (simp_all add: modify_account_def map_modify_found [OF assms(2)])
  moreover have "may_vote ?db v" if "v \<in> set (witness_votes db)" "may_vote db v" for v
    using that p assms(2) unfolding may_vote_def find by (auto split: if_splits)
  ultimately show ?thesis
    using assms(1,5) unfolding gov_at_def gov_tables_def
    by (auto simp: list_all_iff modify_account_def intro: list_all_modify [unfolded list_all_iff, rule_format])
qed

lemma proxied_no_votes:
  "gov_at e db \<Longrightarrow> tbl_find acc_name n (accounts db) = Some a \<Longrightarrow> has_proxy a \<Longrightarrow> n \<notin> wv_account ` set (witness_votes db)"
  by (auto simp: gov_at_def gov_tables_def list_all_iff may_vote_def split: option.splits)

lemma voter_found: "gov_at e db \<Longrightarrow> tbl_find acc_name n (accounts db) = Some a \<Longrightarrow> voter_ok a"
  using tbl_find_key by (fastforce simp: gov_at_def gov_tables_def list_all_iff)

lemma votes_walk_gov:
  "votes_walk amount depth n db db' \<Longrightarrow> gov_at e db \<Longrightarrow> gov_at (e(n := e n - amount depth)) db'"
proof (induction arbitrary: e rule: votes_walk.induct)
  case (stop n db a depth)
  then show ?case using proxied_no_votes [OF stop(3,1,2)] by (intro gov_silent)
next
  case (pass n db a m b votes depth db')
  let ?db = "modify_account m (\<lambda>_. b\<lparr>proxied_vsf_votes := votes\<rparr>) db"
  have b: "voter_ok b" by (rule voter_found [OF pass(7,3)])
  then have v: "voter_ok (b\<lparr>proxied_vsf_votes := votes\<rparr>)" "sum_list votes = sum_list (proxied_vsf_votes b) + amount (Suc depth)"
    using pass(4) by (auto simp: voter_ok_def)
  have "gov_at (e(m := e m + (vote_power (b\<lparr>proxied_vsf_votes := votes\<rparr>) - vote_power b))) ?db"
    using tbl_find_key [OF pass(3)] v(1) by (intro gov_store [OF pass(7,3)]) (auto simp: has_proxy_def)
  then have "gov_at (e(m := e m + amount (Suc depth))) ?db" by (simp add: vote_power_def v(2))
  moreover have "(e(m := e m + x))(m := (e(m := e m + x)) m - x) = e" for x by (rule ext) simp
  ultimately have e: "gov_at e db'" using pass.IH by metis
  have "n \<notin> wv_account ` set (witness_votes db')"
    using proxied_no_votes [OF pass(7,1,2)] votes_walk_frame [OF pass(5)] by (simp add: gov_frame_def)
  then show ?case using e by (intro gov_silent)
qed (rule adjust_witness_votes_gov)

lemma direct_power: "voter_ok a \<Longrightarrow> get_direct_governance_vote_power a = Inr p \<Longrightarrow> p = vesting_shares a - dv_sum (acc_delayed_votes a)"
proof -
  assume v: "voter_ok a" and p: "get_direct_governance_vote_power a = Inr p"
  have "0 \<le> sum_vals (dv_items (acc_delayed_votes a))"
    using v by (auto simp: voter_ok_def list_all_iff intro!: sum_list_nonneg)
  then have "cast_i64 (dv_sum (acc_delayed_votes a)) = dv_sum (acc_delayed_votes a)"
    using v by (auto simp: voter_ok_def cast_simps)
  then show ?thesis using p by (auto simp: get_direct_governance_vote_power_def Let_def result_simps dest: ssub_eq_Inr)
qed

lemma governance_power: "voter_ok a \<Longrightarrow> get_governance_vote_power a = Inr p \<Longrightarrow> p = vote_power a"
  by (auto simp: get_governance_vote_power_def result_simps vote_power_def dest!: direct_power accumulate_value)

lemma negate_all_value: "negate_all vs = Inr us \<Longrightarrow> us = map uminus vs"
  by (induction vs arbitrary: us) (auto simp: result_simps dest: sneg_eq_Inr)

lemma sum_list_uminus: "sum_list (map uminus xs) = - sum_list xs" for xs :: "int list"
  by (induction xs) auto

lemma nullify_gov:
  assumes "gov_ok db" "nullify_proxied_witness_votes n db = Inr db'"
  shows "gov_at ((\<lambda>_. 0)(n := power_of db' n)) db'" "gov_frame db db'"
proof -
  obtain a d us where a: "tbl_find acc_name n (accounts db) = Some a" "get_direct_governance_vote_power a = Inr d"
    "negate_all (d # proxied_vsf_votes a) = Inr us" "adjust_proxied_array n us 0 db = Inr db'"
    using assms(2) by (auto simp: nullify_proxied_witness_votes_def get_account_def result_simps)
  note ok = voter_found [OF assms(1) a(1)]
  have us: "us = map uminus (d # proxied_vsf_votes a)" by (rule negate_all_value [OF a(3)])
  then have l: "length us = Suc HIVE_MAX_PROXY_RECURSION_DEPTH" using ok by (simp add: voter_ok_def)
  then have w: "votes_walk (\<lambda>k. sum_list (take (Suc HIVE_MAX_PROXY_RECURSION_DEPTH - k) us)) 0 n db db'"
    by (intro adjust_proxied_array_walk [OF a(4)]) auto
  then show f: "gov_frame db db'" by (rule votes_walk_frame)
  have "sum_list us = - vote_power a"
    using direct_power [OF ok a(2)] by (simp add: us vote_power_def sum_list_uminus)
  then have g: "gov_at ((\<lambda>_. 0)(n := vote_power a)) db'" using votes_walk_gov [OF w assms(1)] l by simp
  show "gov_at ((\<lambda>_. 0)(n := power_of db' n)) db'"
  proof (cases "has_proxy a")
    case True
    then have "n \<notin> wv_account ` set (witness_votes db')"
      using proxied_no_votes [OF assms(1) a(1)] f by (simp add: gov_frame_def)
    from gov_silent [OF g this, of "power_of db' n"] show ?thesis by simp
  next
    case False
    then obtain t where "adjust_witness_votes n t db = Inr db'"
      using a(1) w by (auto elim: votes_walk.cases)
    then obtain ws where "db' = db\<lparr>witnesses := ws\<rparr>"
      using on_okD [OF adjust_witness_votes_fold [of db t "votes_of db n", folded adjust_witness_votes_def]] assms(1)
      by (auto simp: gov_at_def gov_tables_def)
    then have "power_of db' n = vote_power a" using a(1) by (simp add: power_of_def)
    then show ?thesis using g by simp
  qed
qed

section \<open>Operations keep the tally\<close>

definition gov_keeps :: "chain_db \<Rightarrow> chain_db \<Rightarrow> bool" where
  "gov_keeps db db' \<longleftrightarrow> gov_ok db' \<and> moves (\<lambda>s. 0) 0 db db'"

lemma quiet_trans: "moves (\<lambda>s. 0) 0 a b \<Longrightarrow> moves (\<lambda>s. 0) 0 b c \<Longrightarrow> moves (\<lambda>s. 0) 0 a c"
  using moves_sum [of "\<lambda>s. 0" 0 a b "\<lambda>s. 0" 0 c "\<lambda>s. 0" 0] by simp

lemma modify_found: "tbl_find key n xs = Some a \<Longrightarrow> tbl_modify key n f xs = tbl_modify key n (\<lambda>_. f a) xs"
  by (induction xs) auto

lemma gov_account:
  assumes "gov_at e db" "tbl_find acc_name n (accounts db) = Some a"
    "acc_name (f a) = n" "acc_id (f a) = acc_id a" "voter_ok (f a)" "vote_power (f a) = vote_power a"
    "has_proxy (f a) \<Longrightarrow> \<not> has_proxy a \<Longrightarrow> n \<notin> wv_account ` set (witness_votes db)"
  shows "gov_at e (modify_account n f db)"
proof -
  have "modify_account n f db = modify_account n (\<lambda>_. f a) db"
    using modify_found [OF assms(2), of f] by (simp only: modify_account_def)
  then show ?thesis using gov_store [OF assms(1-5)] assms(6,7) by simp
qed

lemma expiration_quiet [simp]: "same_money a (update_governance_vote_expiration_ts t a)"
  by (simp add: same_money_def update_governance_vote_expiration_ts_def acc_funds_def asset_of_def acc_card_def acc_nonneg_def Let_def)

lemma gov_expiration:
  assumes "gov_ok db" "tbl_find acc_name n (accounts db) = Some a"
  shows "gov_keeps db (modify_account n (update_governance_vote_expiration_ts t) db)"
proof -
  have "gov_ok (modify_account n (update_governance_vote_expiration_ts t) db)"
    using voter_found [OF assms] tbl_find_key [OF assms(2)]
    by (intro gov_account [OF assms])
      (simp_all add: update_governance_vote_expiration_ts_def Let_def voter_ok_def vote_power_def has_proxy_def)
  then show ?thesis by (simp add: gov_keeps_def moves_same_money [OF assms(2)])
qed

lemma voted_for_quiet [simp]: "same_money a (a\<lparr>witnesses_voted_for := x\<rparr>)"
  by (simp add: same_money_def acc_funds_def asset_of_def acc_card_def acc_nonneg_def)

lemma gov_voted_for:
  assumes "gov_at e db" "tbl_find acc_name n (accounts db) = Some a"
  shows "gov_at e (modify_account n (\<lambda>a. a\<lparr>witnesses_voted_for := g a\<rparr>) db)"
    "moves (\<lambda>s. 0) 0 db (modify_account n (\<lambda>a. a\<lparr>witnesses_voted_for := g a\<rparr>) db)"
proof -
  show "gov_at e (modify_account n (\<lambda>a. a\<lparr>witnesses_voted_for := g a\<rparr>) db)"
    using voter_found [OF assms] tbl_find_key [OF assms(2)]
    by (intro gov_account [OF assms]) (simp_all add: voter_ok_def vote_power_def has_proxy_def)
qed (simp add: moves_same_money [OF assms(2)])

lemma gov_drop_votes:
  assumes "gov_at ((\<lambda>_. 0)(n := power_of db n)) db"
  shows "gov_ok (db\<lparr>witness_votes := filter (\<lambda>v. wv_account v \<noteq> n) (witness_votes db)\<rparr>)"
proof -
  let ?vs = "filter (\<lambda>v. wv_account v \<noteq> n) (witness_votes db)"
  have "total (\<lambda>v. if wv_witness v = x then power_of db (wv_account v) - 0 else 0) (filter (\<lambda>v. wv_account v \<noteq> n) vs)
      = total (\<lambda>v. if wv_witness v = x then power_of db (wv_account v) - ((\<lambda>_. 0)(n := power_of db n)) (wv_account v) else 0) vs" for vs x
    by (induction vs) auto
  then have "tally (\<lambda>_. 0) (db\<lparr>witness_votes := ?vs\<rparr>) x = tally ((\<lambda>_. 0)(n := power_of db n)) db x + 0" for x
    by (simp add: tally_def cong: if_cong)
  from gov_recount [OF assms votes_shift_refl this] assms
  have "gov_ok (db\<lparr>witnesses := witnesses db, witness_votes := ?vs\<rparr>)"
    by (auto simp: gov_at_def gov_tables_def list_all_iff distinct_map_filter)
  then show ?thesis by simp
qed

lemma clear_witness_votes_gov:
  assumes "gov_at ((\<lambda>_. 0)(n := power_of db n)) db" "tbl_find acc_name n (accounts db) = Some a"
  shows "gov_keeps db (clear_witness_votes n db)" "n \<notin> wv_account ` set (witness_votes (clear_witness_votes n db))"
proof -
  let ?db = "db\<lparr>witness_votes := filter (\<lambda>v. wv_account v \<noteq> n) (witness_votes db)\<rparr>"
  have "gov_ok ?db" "moves (\<lambda>s. 0) 0 db ?db" "tbl_find acc_name n (accounts ?db) = Some a"
    using assms by (simp_all add: gov_drop_votes quiet_tables)
  then show "gov_keeps db (clear_witness_votes n db)"
    using gov_voted_for [of "\<lambda>_. 0" ?db n a "\<lambda>_. 0"] by (auto simp: clear_witness_votes_def gov_keeps_def Let_def intro: quiet_trans)
  show "n \<notin> wv_account ` set (witness_votes (clear_witness_votes n db))"
    by (auto simp: clear_witness_votes_def Let_def)
qed

lemma assign_proxy_gov:
  assumes "gov_at ((\<lambda>_. 0)(n := power_of db n)) db" "assign_proxy n p db = Inr db'"
  shows "gov_keeps db db'"
proof -
  let ?cl = "clear_witness_votes n db"
  obtain a q a1 a2 a3 dir where a: "tbl_find acc_name n (accounts db) = Some a" "tbl_find acc_name n (accounts ?cl) = Some a1"
    "set_proxy q a1 = Inr a2" and a3: "tbl_find acc_name n (accounts (modify_account n (\<lambda>_. a2) ?cl)) = Some a3"
    and d: "get_direct_governance_vote_power a3 = Inr dir"
    "adjust_proxied_array n (dir # proxied_vsf_votes a3) 0 (modify_account n (\<lambda>_. a2) ?cl) = Inr db'"
    using assms(2) unfolding assign_proxy_def get_account_def try_modify_account_def by (auto simp: result_simps)
  have a2: "a2 = a1\<lparr>acc_proxy := Some (acc_id q)\<rparr>" using a(3) by (auto simp: set_proxy_def result_simps)
  have "acc_name a2 = n" using tbl_find_key [OF a(2)] by (simp add: a2)
  from find_store [OF a(2) this, of n] a3 have "a3 = a2" by (simp add: modify_account_def)
  note d = d [unfolded this]
  note cl = clear_witness_votes_gov [OF assms(1) a(1)]
  let ?db = "modify_account n (\<lambda>_. a2) ?cl"
  have ok: "gov_ok ?cl" using cl(1) by (simp add: gov_keeps_def)
  have a1: "voter_ok a1" "acc_name a1 = n" using voter_found [OF ok a(2)] tbl_find_key [OF a(2)] by auto
  then have g: "gov_ok ?db"
    using cl(2) by (intro gov_account [OF ok a(2)]) (auto simp: a2 voter_ok_def vote_power_def)
  have m: "moves (\<lambda>s. 0) 0 ?cl ?db"
    by (rule moves_same_money [OF a(2)]) (simp add: a2 same_money_def acc_funds_def asset_of_def acc_card_def acc_nonneg_def)
  have "length (dir # proxied_vsf_votes a2) = Suc HIVE_MAX_PROXY_RECURSION_DEPTH" using a1 by (simp add: a2 voter_ok_def)
  then obtain amount where w: "votes_walk amount 0 n ?db db'"
    using adjust_proxied_array_walk [OF d(2)] by auto
  then have "gov_at ((\<lambda>_. 0)(n := - amount 0)) db'" using votes_walk_gov [OF w g] by simp
  moreover have "n \<notin> wv_account ` set (witness_votes db')"
    using cl(2) votes_walk_frame [OF w] by (simp add: gov_frame_def)
  ultimately have "gov_at (((\<lambda>_. 0)(n := - amount 0))(n := 0)) db'" by (rule gov_silent)
  then have "gov_ok db'" by (simp add: fun_upd_idem)
  moreover have "moves (\<lambda>s. 0) 0 db db'"
    using cl(1) m votes_walk_frame [OF w] by (auto simp: gov_keeps_def gov_frame_def intro: quiet_trans)
  ultimately show ?thesis by (simp add: gov_keeps_def)
qed

lemma clear_proxy_gov:
  assumes "gov_at ((\<lambda>_. 0)(n := x)) db" "clear_proxy n db = Inr db'"
  shows "gov_keeps db db'"
proof -
  obtain a where a: "tbl_find acc_name n (accounts db) = Some a" "has_proxy a"
    and db': "db' = modify_account n (\<lambda>a. a\<lparr>acc_proxy := None\<rparr>) db"
    using assms(2) by (auto simp: clear_proxy_def get_account_def result_simps)
  have "gov_at (((\<lambda>_. 0)(n := x))(n := 0)) db"
    by (rule gov_silent [OF assms(1) proxied_no_votes [OF assms(1) a]])
  then have g: "gov_ok db" by (simp add: fun_upd_idem)
  have "gov_ok db'"
    unfolding db' using voter_found [OF g a(1)] tbl_find_key [OF a(1)]
    by (intro gov_account [OF g a(1)]) (auto simp: voter_ok_def vote_power_def has_proxy_def)
  moreover have "moves (\<lambda>s. 0) 0 db db'"
    unfolding db' by (rule moves_same_money [OF a(1)]) (simp add: same_money_def acc_funds_def asset_of_def acc_card_def acc_nonneg_def)
  ultimately show ?thesis by (simp add: gov_keeps_def)
qed

lemma gov_keeps_trans: "gov_keeps a b \<Longrightarrow> gov_keeps b c \<Longrightarrow> gov_keeps a c"
  by (auto simp: gov_keeps_def intro: quiet_trans)

lemma account_witness_proxy_gov:
  assumes "gov_ok db" "account_witness_proxy_apply o1 db = Inr db'"
  shows "gov_keeps db db'"
proof -
  let ?n = "awp_account o1"
  let ?db = "modify_account ?n (update_governance_vote_expiration_ts (head_block_time db)) db"
  obtain a db1 where a: "tbl_find acc_name ?n (accounts db) = Some a"
    and n: "nullify_proxied_witness_votes ?n ?db = Inr db1"
    and r: "(if \<not> is_clearing_proxy o1 then assign_proxy ?n (awp_proxy o1) db1 else clear_proxy ?n db1) = Inr db'"
    using assms(2) by (auto simp: account_witness_proxy_apply_def get_account_def result_simps Let_def)
  have e: "gov_keeps db ?db" by (rule gov_expiration [OF assms(1) a])
  then have g: "gov_ok ?db" by (simp add: gov_keeps_def)
  note nn = nullify_gov [OF g n]
  have "gov_keeps db1 db'" using r assign_proxy_gov [OF nn(1)] clear_proxy_gov [OF nn(1)] by (auto split: if_splits)
  then show ?thesis using e nn(2) by (auto simp: gov_keeps_def gov_frame_def intro: quiet_trans)
qed

lemma approve_witness_gov:
  assumes g: "gov_ok db" "has_hardfork db 3" and a: "tbl_find acc_name n (accounts db) = Some a" "\<not> has_proxy a"
    and r: "approve_witness a w db = Inr db'"
  shows "gov_keeps db db'"
proof -
  let ?v = "\<lparr>wv_witness = w_owner w, wv_account = acc_name a\<rparr>" let ?vs = "witness_votes db @ [?v]"
  let ?db = "db\<lparr>witness_votes := ?vs\<rparr>"
  have n: "acc_name a = n" using tbl_find_key [OF a(1)] by simp
  have "has_hardfork ?db k = has_hardfork db k" for k by (simp add: has_hardfork_def)
  with r g(2) obtain p db1 where new: "tbl_find vote_key (vote_key ?v) (witness_votes db) = None"
    and p: "get_governance_vote_power a = Inr p" "adjust_witness_vote (w_owner w) p ?db = Inr db1"
    and db': "db' = modify_account (acc_name a) (\<lambda>a. a\<lparr>witnesses_voted_for := cast_u16 (witnesses_voted_for a + 1)\<rparr>) db1"
    by (auto simp: approve_witness_def result_simps Let_def)
  have pw: "p = vote_power a" by (rule governance_power [OF voter_found [OF g(1) a(1)] p(1)])
  obtain ws where ws: "db1 = ?db\<lparr>witnesses := ws\<rparr>" "votes_shift (\<lambda>x. if x = w_owner w then p else 0) (witnesses db) ws"
    using on_okD [OF adjust_witness_vote_effect p(2)] g(1) by (auto simp: gov_at_def gov_tables_def)
  have "tally (\<lambda>_. 0) ?db x = tally (\<lambda>_. 0) db x + (if x = w_owner w then p else 0)" for x
    using a(1) by (simp add: tally_def power_of_def [of db n] n pw cong: if_cong)
  moreover have "list_all (may_vote db) ?vs" using g(1) a by (simp add: gov_at_def gov_tables_def may_vote_def n)
  moreover have "distinct (map vote_key ?vs)" using g(1) new by (auto simp: gov_at_def gov_tables_def tbl_find_none)
  ultimately have "gov_ok (db\<lparr>witnesses := ws, witness_votes := ?vs\<rparr>)" by (rule gov_recount [OF g(1) ws(2)])
  moreover have "?db\<lparr>witnesses := ws\<rparr> = db\<lparr>witnesses := ws, witness_votes := ?vs\<rparr>" by simp
  ultimately have k: "gov_keeps db db1"
    unfolding gov_keeps_def ws(1) by (metis quiet_trans [OF quiet_tables(6) quiet_tables(7)])
  then have f: "gov_ok db1" "tbl_find acc_name n (accounts db1) = Some a" using a(1) by (simp_all add: gov_keeps_def ws(1))
  then show ?thesis using k gov_voted_for [OF f] by (auto simp: gov_keeps_def db' n intro: quiet_trans)
qed

lemma reject_witness_gov:
  assumes g: "gov_ok db" "has_hardfork db 3" and a: "tbl_find acc_name n (accounts db) = Some a"
    and v: "tbl_find vote_key (acc_name a, w_owner w) (witness_votes db) = Some v" and r: "reject_witness a w db = Inr db'"
  shows "gov_keeps db db'"
proof -
  let ?vs = "tbl_remove vote_key (acc_name a, w_owner w) (witness_votes db)"
  have n: "acc_name a = n" using tbl_find_key [OF a(1)] by simp
  have vk: "wv_witness v = w_owner w" "wv_account v = n" using tbl_find_key [OF v] n by auto
  obtain p q db1 where p: "get_governance_vote_power a = Inr p" "sneg p = Inr q" "adjust_witness_vote (w_owner w) q db = Inr db1"
    and db': "db' = (modify_account (acc_name a) (\<lambda>a. a\<lparr>witnesses_voted_for := cast_u16 (witnesses_voted_for a - 1)\<rparr>) db1)
      \<lparr>witness_votes := tbl_remove vote_key (acc_name a, w_owner w) (witness_votes db1)\<rparr>"
    using r g(2) by (auto simp: reject_witness_def result_simps Let_def)
  have q: "q = - vote_power a" using governance_power [OF voter_found [OF g(1) a(1)] p(1)] sneg_eq_Inr [OF p(2)] by simp
  obtain ws where ws: "db1 = db\<lparr>witnesses := ws\<rparr>" "votes_shift (\<lambda>x. if x = w_owner w then q else 0) (witnesses db) ws"
    using on_okD [OF adjust_witness_vote_effect p(3)] g(1) by (auto simp: gov_at_def gov_tables_def)
  have "tally (\<lambda>_. 0) (db\<lparr>witness_votes := ?vs\<rparr>) x = tally (\<lambda>_. 0) db x + (if x = w_owner w then q else 0)" for x
    using a(1) vk by (simp add: tally_def total_remove [OF v] power_of_def [of db n] q cong: if_cong)
  moreover have "list_all (may_vote db) ?vs"
    using g(1) set_tbl_remove [of vote_key "(acc_name a, w_owner w)" "witness_votes db"] by (auto simp: gov_at_def gov_tables_def list_all_iff)
  moreover have "distinct (map vote_key ?vs)" using g(1) by (simp add: gov_at_def gov_tables_def distinct_remove)
  ultimately have gk: "gov_ok (db\<lparr>witnesses := ws, witness_votes := ?vs\<rparr>)" by (rule gov_recount [OF g(1) ws(2)])
  let ?db = "db\<lparr>witnesses := ws, witness_votes := ?vs\<rparr>"
  have "db' = modify_account n (\<lambda>a. a\<lparr>witnesses_voted_for := cast_u16 (witnesses_voted_for a - 1)\<rparr>) ?db"
    by (simp add: db' ws(1) n modify_account_def)
  moreover have "tbl_find acc_name n (accounts ?db) = Some a" using a by simp
  moreover have "moves (\<lambda>s. 0) 0 db ?db" by (rule quiet_trans [OF quiet_tables(6) quiet_tables(7)])
  ultimately show ?thesis using gov_voted_for [OF gk] by (auto simp: gov_keeps_def intro: quiet_trans)
qed

lemma account_witness_vote_gov:
  assumes "gov_ok db" "has_hardfork db 3" "account_witness_vote_apply o1 db = Inr db'"
  shows "gov_keeps db db'"
proof -
  let ?n = "awv_account o1"
  let ?db = "modify_account ?n (update_governance_vote_expiration_ts (head_block_time db)) db"
  obtain a b w where a: "tbl_find acc_name ?n (accounts db) = Some a" "\<not> has_proxy a"
    and b: "tbl_find acc_name ?n (accounts ?db) = Some b"
    and r: "tbl_find vote_key (acc_name b, w_owner w) (witness_votes ?db) = None \<and> approve_witness b w ?db = Inr db'
      \<or> (\<exists>v. tbl_find vote_key (acc_name b, w_owner w) (witness_votes ?db) = Some v \<and> reject_witness b w ?db = Inr db')"
    using assms(3) unfolding account_witness_vote_apply_def get_account_def
    by (auto simp: result_simps Let_def split: if_splits)
  have e: "gov_keeps db ?db" by (rule gov_expiration [OF assms(1) a(1)])
  then have g: "gov_ok ?db" "has_hardfork ?db 3" using assms(2) by (auto simp: gov_keeps_def dest: moves_hardfork)
  have "b = update_governance_vote_expiration_ts (head_block_time db) a"
    using a(1) b by (simp add: modify_account_def tbl_find_modify update_governance_vote_expiration_ts_def Let_def)
  then have "\<not> has_proxy b" using a(2) by (simp add: has_proxy_def update_governance_vote_expiration_ts_def Let_def)
  then have "gov_keeps ?db db'"
    using r approve_witness_gov [OF g b] reject_witness_gov [OF g b] by blast
  then show ?thesis by (rule gov_keeps_trans [OF e])
qed

lemma erase_front_power:
  assumes "voter_ok a" "dv_items (acc_delayed_votes a) = i # is" "erase_front_delayed a = Inr b"
  shows "voter_ok b \<and> vote_power b = vote_power a + dv_val i 
    \<and> acc_name b = acc_name a \<and> acc_id b = acc_id a \<and> acc_proxy b = acc_proxy a \<and> same_money a b"
proof -
  have nn: "0 \<le> dv_val i" "0 \<le> sum_vals is" using assms(1,2) by (auto simp: voter_ok_def list_all_iff intro!: sum_list_nonneg)
  have s: "dv_sum (acc_delayed_votes a) = dv_val i + sum_vals is" using assms(1,2) by (simp add: voter_ok_def)
  then have "usub (dv_sum (acc_delayed_votes a)) (dv_val i) = Inr (sum_vals is)" using usub_ok nn by simp
  then have "b = a\<lparr>acc_delayed_votes := (acc_delayed_votes a)\<lparr>dv_sum := sum_vals is, dv_items := is\<rparr>\<rparr>"
    using assms(2,3) by (auto simp: erase_front_delayed_def dv_erase_front_def result_simps)
  then show ?thesis using assms(1,2) nn s
    by (auto simp: voter_ok_def vote_power_def same_money_def acc_funds_def asset_of_def acc_card_def acc_nonneg_def)
qed

lemma activate_delayed_gov:
  assumes "gov_ok db" "tbl_find acc_name n (accounts db) = Some a" "has_delayed_votes a" "activate_delayed a db = Inr db'"
  shows "gov_keeps db db'"
proof -
  obtain i "is" where i: "dv_items (acc_delayed_votes a) = i # is" using assms(3) by (auto simp: has_delayed_votes_def neq_Nil_conv)
  have n: "acc_name a = n" using tbl_find_key [OF assms(2)] by simp
  obtain db1 a1 b where db1: "adjust_proxied_witness_votes n (cast_i64 (dv_val i)) 0 db = Inr db1"
    "tbl_find acc_name n (accounts db1) = Some a1" "erase_front_delayed a1 = Inr b" and db': "db' = modify_account n (\<lambda>_. b) db1"
    using assms(4) i n by (auto simp: activate_delayed_def try_modify_account_def get_account_def result_simps)
  note w = adjust_proxied_witness_votes_walk [OF db1(1)]
  note f = votes_walk_frame [OF w]
  have g: "gov_at ((\<lambda>_. 0)(n := - cast_i64 (dv_val i))) db1" using votes_walk_gov [OF w assms(1)] by simp
  have i1: "dv_items (acc_delayed_votes a1) = i # is"
    using gov_frame_find [OF f db1(2)] assms(2) unproxied_fields(1) i by (metis option.inject)
  have ok: "voter_ok a1" by (rule voter_found [OF g db1(2)])
  note b = erase_front_power [OF ok i1 db1(3)]
  have "0 \<le> dv_val i" "0 \<le> sum_vals is" "dv_val i + sum_vals is \<le> int64_max"
    using ok i1 by (auto simp: voter_ok_def list_all_iff intro!: sum_list_nonneg)
  then have c: "cast_i64 (dv_val i) = dv_val i" by (simp add: cast_simps)
  have "acc_name b = n" "acc_id b = acc_id a1" "acc_proxy b = acc_proxy a1" "same_money a1 b"
    using b tbl_find_key [OF db1(2)] by auto
  then have "gov_ok db'" unfolding db'
    using gov_store [OF g db1(2), of b] b by (simp add: c has_proxy_def fun_upd_idem)
  moreover have "moves (\<lambda>s. 0) 0 db db'"
    using f moves_same_money [OF db1(2), of "\<lambda>_. b"] \<open>same_money a1 b\<close> unfolding db' gov_frame_def by (auto intro: quiet_trans)
  ultimately show ?thesis by (simp add: gov_keeps_def)
qed

lemma delayed_voting_run_gov: "delayed_voting_run t db = Inr db' \<Longrightarrow> gov_ok db \<Longrightarrow> gov_keeps db db'"
proof (induction t db rule: delayed_voting_run.induct)
  case (1 t db)
  note r = 1(2) [unfolded delayed_voting_run.simps [of t db]]
  consider "db' = db" | first current db1 where
      "tbl_begin (\<lambda>a. (get_oldest_delayed_vote_time a, acc_id a)) (accounts db) = Some first"
      "get_account db (acc_name first) = Inr current" "has_delayed_votes current"
      "t \<ge> cast_u32 (get_oldest_delayed_vote_time current + HIVE_DELAYED_VOTING_TOTAL_INTERVAL_SECONDS)"
      "activate_delayed current db = Inr db1" "delayed_voting_run t db1 = Inr db'"
    using r by (auto simp: result_simps split: option.splits if_splits)
  then show ?case
  proof cases
    case 1
    then show ?thesis using \<open>gov_ok db\<close> by (simp add: gov_keeps_def moves_refl)
  next
    case 2
    then have "gov_keeps db db1"
      using activate_delayed_gov [OF \<open>gov_ok db\<close>] by (auto simp: get_account_def result_simps)
    moreover have "gov_keeps db1 db'" using 1(1) [OF 2(1,2) _ 2(5,6)] 2 calculation by (simp add: gov_keeps_def)
    ultimately show ?thesis by (rule gov_keeps_trans)
  qed
qed

section \<open>Every run keeps the tally\<close>

inductive gov_step :: "chain_db \<Rightarrow> chain_db \<Rightarrow> bool" where
  vote: "account_witness_vote_validate o1 = Inr () \<Longrightarrow> account_witness_vote_apply o1 db = Inr db' \<Longrightarrow> gov_step db db'"
| proxy: "account_witness_proxy_validate o2 = Inr () \<Longrightarrow> account_witness_proxy_apply o2 db = Inr db' \<Longrightarrow> gov_step db db'"
| delayed: "process_delayed_voting now db = Inr db' \<Longrightarrow> gov_step db db'"

lemma gov_step_keeps: "gov_step db db' \<Longrightarrow> gov_ok db \<Longrightarrow> has_hardfork db 3 \<Longrightarrow> gov_keeps db db'"
proof (induction rule: gov_step.induct)
  case (delayed now db db')
  then show ?case
    by (auto simp: process_delayed_voting_def gov_keeps_def moves_refl split: if_splits dest: delayed_voting_run_gov)
qed (blast intro: account_witness_vote_gov account_witness_proxy_gov)+

text \<open>
  Property C2. After every run of validated votes for witnesses, changes of proxies and
  activations of delayed votes, the votes stored in each witness are exactly the voting power
  of the accounts that have a vote for it on record, where the power of an account is its
  vesting shares without the delayed ones plus the power others proxy to it.
\<close>

theorem witness_votes_tally:
  assumes "gov_step\<^sup>*\<^sup>* db db'" "gov_ok db" "has_hardfork db 3"
  shows "list_all (\<lambda>w. w_votes w = total (\<lambda>v. power_of db' (wv_account v)) (filter (\<lambda>v. wv_witness v = w_owner w) (witness_votes db')))
    (witnesses db')"
proof -
  have "gov_ok db' \<and> has_hardfork db' 3"
    using assms
  proof (induction rule: rtranclp_induct)
    case (step y z)
    then have "gov_keeps y z" by (blast intro: gov_step_keeps)
    then show ?case using step by (auto simp: gov_keeps_def dest: moves_hardfork)
  qed simp
  moreover have tot: "total (\<lambda>v. if wv_witness v = x then power_of db' (wv_account v) - 0 else 0) vs
      = total (\<lambda>v. power_of db' (wv_account v)) (filter (\<lambda>v. wv_witness v = x) vs)" for x vs
    by (induction vs) auto
  ultimately show ?thesis by (simp add: gov_at_def tally_def tot)
qed

definition sample_witness :: witness_object where
  "sample_witness = \<lparr>w_owner = ''carol'', w_votes = 0, w_schedule = Elected, virtual_last_update = 0, virtual_position = 0,
     virtual_scheduled_time = 0, w_is_disabled = False, available_witness_account_subsidies = 0\<rparr>"

text \<open>Alice owns 1000 vests, 200 of them delayed until the present, and bob 500.\<close>

definition sample_gov_db :: chain_db where
  "sample_gov_db = sample_db\<lparr>
     accounts := [(new_account 0 ''alice'')\<lparr>vesting_shares := 1000,
         acc_delayed_votes := \<lparr>dv_items = [\<lparr>dv_time = 1690000000, dv_val = 200\<rparr>], dv_sum = 200\<rparr>\<rparr>,
       (new_account 1 ''bob'')\<lparr>vesting_shares := 500\<rparr>, new_account 2 ''carol''],
     gpo := sample_gpo\<lparr>total_vesting_shares := 1500\<rparr>, witnesses := [sample_witness]\<rparr>"

definition sample_gov_run :: "chain_db result" where
  "sample_gov_run =
     rbind (account_witness_vote_apply \<lparr>awv_account = ''alice'', awv_witness = ''carol'', awv_approve = True\<rparr> sample_gov_db) (\<lambda>db.
     rbind (account_witness_proxy_apply \<lparr>awp_account = ''bob'', awp_proxy = ''alice''\<rparr> db)
       (process_delayed_voting 1700000000))"

lemma gov_run_step: "gov_step\<^sup>*\<^sup>* a b \<Longrightarrow> gov_step b c \<Longrightarrow> gov_step\<^sup>*\<^sup>* a c"
  by (rule rtranclp.rtrancl_into_rtrancl)

theorem witness_votes_tally_witness:
  "case sample_gov_run of
     Inl _ \<Rightarrow> False
   | Inr db \<Rightarrow> list_all (\<lambda>w. w_votes w = total (\<lambda>v. power_of db (wv_account v)) (filter (\<lambda>v. wv_witness v = w_owner w) (witness_votes db)))
        (witnesses db) \<and> map w_votes (witnesses db) = [1500]"
proof -
  have run: "case sample_gov_run of Inl _ \<Rightarrow> False | Inr db \<Rightarrow> map w_votes (witnesses db) = [1500]"
    by code_simp
  then obtain db1 db2 db3 where s:
    "account_witness_vote_apply \<lparr>awv_account = ''alice'', awv_witness = ''carol'', awv_approve = True\<rparr> sample_gov_db = Inr db1"
    "account_witness_proxy_apply \<lparr>awp_account = ''bob'', awp_proxy = ''alice''\<rparr> db1 = Inr db2"
    "process_delayed_voting 1700000000 db2 = Inr db3" and r: "sample_gov_run = Inr db3"
    by (cases sample_gov_run) (auto simp: sample_gov_run_def result_simps)
  have pre: "gov_ok sample_gov_db" "has_hardfork sample_gov_db 3"
    "account_witness_vote_validate \<lparr>awv_account = ''alice'', awv_witness = ''carol'', awv_approve = True\<rparr> = Inr ()"
    "account_witness_proxy_validate \<lparr>awp_account = ''bob'', awp_proxy = ''alice''\<rparr> = Inr ()"
    by code_simp+
  have "gov_step\<^sup>*\<^sup>* sample_gov_db db3"
    by (rule gov_run_step [OF gov_run_step [OF gov_run_step [OF rtranclp.rtrancl_refl
      gov_step.vote [OF pre(3) s(1)]] gov_step.proxy [OF pre(4) s(2)]] gov_step.delayed [OF s(3)]])
  from witness_votes_tally [OF this pre(1,2)] run show ?thesis unfolding r sum.case by blast
qed

end
