(* ===== verification/Chainbase_Undo.thy ===== *)
theory Chainbase_Undo
  imports Prelude
begin

text \<open>
  The undo sessions of the object database, \<open>generic_index\<close> of
  \<open>chainbase/include/chainbase/chainbase.hpp\<close>: objects are created, modified and removed in a
  multi-index container while a stack of undo states records what to put back. The container
  itself is \<open>boost::multi_index_container\<close>; its operations are the parameter \<open>mi\<close>, and the
  locale \<open>boost_index\<close> states the documented behaviour the code relies on. The lemmas show that
  the stack of differences refines a stack of copies of the whole index, that undo cannot
  fail when the unique keys of different objects never meet, and how it fails otherwise.
  The statistics on allocated memory are left out.
\<close>

section \<open>Containers\<close>

record 'a chain_object =
  get_id :: nat
  content :: 'a

record ('c, 'v) multi_index =
  mi_find :: "nat \<Rightarrow> 'c \<Rightarrow> 'v option"
  mi_emplace :: "'v \<Rightarrow> 'c \<Rightarrow> 'c \<times> bool"
  mi_modify :: "nat \<Rightarrow> ('v \<Rightarrow> 'v) \<Rightarrow> 'c \<Rightarrow> 'c \<times> bool"
  mi_erase :: "nat \<Rightarrow> 'c \<Rightarrow> 'c"

text \<open>The maps and sets of an undo state, ordered by id; \<open>emplace\<close> keeps an element that is there.\<close>

definition om_find :: "nat \<Rightarrow> 'a chain_object list \<Rightarrow> 'a chain_object option" where
  "om_find i xs = find (\<lambda>v. get_id v = i) xs"

definition om_emplace :: "'a chain_object \<Rightarrow> 'a chain_object list \<Rightarrow> 'a chain_object list" where
  "om_emplace v xs = (if om_find (get_id v) xs = None then insort_key get_id v xs else xs)"

definition om_erase :: "nat \<Rightarrow> 'a chain_object list \<Rightarrow> 'a chain_object list" where
  "om_erase i xs = filter (\<lambda>v. get_id v \<noteq> i) xs"

definition os_insert :: "nat \<Rightarrow> nat list \<Rightarrow> nat list" where
  "os_insert i xs = (if i \<in> set xs then xs else insort i xs)"

section \<open>The index\<close>

record 'a undo_state =
  old_values :: "'a chain_object list"
  removed_values :: "'a chain_object list"
  new_ids :: "nat list"
  old_next_id :: nat
  us_revision :: int

text \<open>\<open>gi_stack\<close> lists the undo states with the newest first.\<close>

record ('c, 'a) generic_index =
  gi_stack :: "'a undo_state list"
  gi_revision :: int
  next_id :: nat
  indices :: 'c

definition change_head :: "('a undo_state \<Rightarrow> 'a undo_state) \<Rightarrow> ('c, 'a) generic_index \<Rightarrow> ('c, 'a) generic_index" where
  "change_head f g = (case gi_stack g of [] \<Rightarrow> g | head # rest \<Rightarrow> g\<lparr>gi_stack := f head # rest\<rparr>)"

definition note_modify :: "'a chain_object \<Rightarrow> 'a undo_state \<Rightarrow> 'a undo_state" where
  "note_modify v head =
     (if get_id v \<in> set (new_ids head) then head
      else if om_find (get_id v) (old_values head) \<noteq> None then head
      else head\<lparr>old_values := om_emplace v (old_values head)\<rparr>)"

definition note_remove :: "'a chain_object \<Rightarrow> 'a undo_state \<Rightarrow> 'a undo_state" where
  "note_remove v head =
     (if get_id v \<in> set (new_ids head) then head\<lparr>new_ids := remove1 (get_id v) (new_ids head)\<rparr>
      else case om_find (get_id v) (old_values head) of
        Some x \<Rightarrow> head\<lparr>removed_values := om_emplace x (removed_values head), old_values := om_erase (get_id v) (old_values head)\<rparr>
      | None \<Rightarrow>
          if om_find (get_id v) (removed_values head) \<noteq> None then head
          else head\<lparr>removed_values := om_emplace v (removed_values head)\<rparr>)"

definition note_create :: "'a chain_object \<Rightarrow> 'a undo_state \<Rightarrow> 'a undo_state" where
  "note_create v head = head\<lparr>new_ids := os_insert (get_id v) (new_ids head)\<rparr>"

definition on_modify :: "'a chain_object \<Rightarrow> ('c, 'a) generic_index \<Rightarrow> ('c, 'a) generic_index" where
  "on_modify v = change_head (note_modify v)"

definition on_remove :: "'a chain_object \<Rightarrow> ('c, 'a) generic_index \<Rightarrow> ('c, 'a) generic_index" where
  "on_remove v = change_head (note_remove v)"

definition on_create :: "'a chain_object \<Rightarrow> ('c, 'a) generic_index \<Rightarrow> ('c, 'a) generic_index" where
  "on_create v = change_head (note_create v)"

text \<open>
  Creating, modifying and removing an object give the new index and whether the call threw: a
  failed modification has already changed the container. A modifier may itself throw after it
  changed the object, which \<open>modify\<close> notices only when the container has been updated.
\<close>

definition gi_emplace :: "('c, 'a chain_object) multi_index \<Rightarrow> 'a \<Rightarrow> ('c, 'a) generic_index \<Rightarrow> ('c, 'a) generic_index \<times> bool" where
  "gi_emplace mi x g =
     (let v = \<lparr>get_id = next_id g, content = x\<rparr> in
      case mi_emplace mi v (indices g) of
        (c, False) \<Rightarrow> (g\<lparr>indices := c\<rparr>, False)
      | (c, True) \<Rightarrow> (on_create v (g\<lparr>indices := c, next_id := next_id g + 1\<rparr>), True))"

definition gi_modify ::
  "('c, 'a chain_object) multi_index \<Rightarrow> 'a chain_object \<Rightarrow> ('a \<Rightarrow> 'a \<times> bool) \<Rightarrow> ('c, 'a) generic_index \<Rightarrow> ('c, 'a) generic_index \<times> bool" where
  "gi_modify mi v m g =
     (let g = on_modify v g;
          (c, ok) = mi_modify mi (get_id v) (\<lambda>x. x\<lparr>content := fst (m (content x))\<rparr>) (indices g);
          threw = snd (m (content v)) in
      (g\<lparr>indices := c\<rparr>, \<not> threw \<and> ok))"

definition gi_remove :: "('c, 'a chain_object) multi_index \<Rightarrow> 'a chain_object \<Rightarrow> ('c, 'a) generic_index \<Rightarrow> ('c, 'a) generic_index" where
  "gi_remove mi v g = (let g = on_remove v g in g\<lparr>indices := mi_erase mi (get_id v) (indices g)\<rparr>)"

section \<open>Sessions\<close>

definition start_undo_session :: "('c, 'a) generic_index \<Rightarrow> ('c, 'a) generic_index" where
  "start_undo_session g =
     g\<lparr>gi_revision := gi_revision g + 1,
       gi_stack := \<lparr>old_values = [], removed_values = [], new_ids = [], old_next_id = next_id g, us_revision = gi_revision g + 1\<rparr> # gi_stack g\<rparr>"

fun restore_old :: "('c, 'a chain_object) multi_index \<Rightarrow> 'a chain_object list \<Rightarrow> 'c \<Rightarrow> 'c result" where
  "restore_old mi [] c = Inr c"
| "restore_old mi (v # vs) c =
     (let (c', ok) = (case mi_find mi (get_id v) c of
          Some _ \<Rightarrow> mi_modify mi (get_id v) (\<lambda>_. v) c
        | None \<Rightarrow> mi_emplace mi v c) in
      if ok then restore_old mi vs c' else Inl (Logic_Error_Exception ''Could not modify object''))"

fun erase_new :: "('c, 'a chain_object) multi_index \<Rightarrow> nat list \<Rightarrow> 'c \<Rightarrow> 'c result" where
  "erase_new mi [] c = Inr c"
| "erase_new mi (i # is) c =
     (case mi_find mi i c of
        None \<Rightarrow> Inl (Logic_Error_Exception ''unable to find object'')
      | Some _ \<Rightarrow> erase_new mi is (mi_erase mi i c))"

fun restore_removed :: "('c, 'a chain_object) multi_index \<Rightarrow> 'a chain_object list \<Rightarrow> 'c \<Rightarrow> 'c result" where
  "restore_removed mi [] c = Inr c"
| "restore_removed mi (v # vs) c =
     (let (c', ok) = mi_emplace mi v c in
      if ok then restore_removed mi vs c' else Inl (Logic_Error_Exception ''Could not restore object''))"

definition undo :: "('c, 'a chain_object) multi_index \<Rightarrow> ('c, 'a) generic_index \<Rightarrow> ('c, 'a) generic_index result" where
  "undo mi g =
     (case gi_stack g of
        [] \<Rightarrow> Inr g
      | head # rest \<Rightarrow>
          rbind (restore_old mi (old_values head) (indices g)) (\<lambda>c.
          rbind (erase_new mi (new_ids head) c) (\<lambda>c.
          rbind (restore_removed mi (removed_values head) c) (\<lambda>c.
            Inr (g\<lparr>indices := c, next_id := old_next_id head, gi_stack := rest, gi_revision := gi_revision g - 1\<rparr>)))))"

definition squash_old :: "'a undo_state \<Rightarrow> 'a chain_object \<Rightarrow> 'a undo_state" where
  "squash_old prev v =
     (if get_id v \<in> set (new_ids prev) then prev
      else if om_find (get_id v) (old_values prev) \<noteq> None then prev
      else prev\<lparr>old_values := om_emplace v (old_values prev)\<rparr>)"

definition squash_removed :: "'a undo_state \<Rightarrow> 'a chain_object \<Rightarrow> 'a undo_state" where
  "squash_removed prev v =
     (if get_id v \<in> set (new_ids prev) then prev\<lparr>new_ids := remove1 (get_id v) (new_ids prev)\<rparr>
      else case om_find (get_id v) (old_values prev) of
        Some x \<Rightarrow> prev\<lparr>removed_values := om_emplace x (removed_values prev), old_values := om_erase (get_id v) (old_values prev)\<rparr>
      | None \<Rightarrow> prev\<lparr>removed_values := om_emplace v (removed_values prev)\<rparr>)"

definition squash_states :: "'a undo_state \<Rightarrow> 'a undo_state \<Rightarrow> 'a undo_state" where
  "squash_states state prev =
     (let prev = foldl squash_old prev (old_values state);
          prev = prev\<lparr>new_ids := foldl (\<lambda>is i. os_insert i is) (new_ids prev) (new_ids state)\<rparr> in
      foldl squash_removed prev (removed_values state))"

definition squash :: "('c, 'a) generic_index \<Rightarrow> ('c, 'a) generic_index" where
  "squash g =
     (case gi_stack g of
        [] \<Rightarrow> g
      | [_] \<Rightarrow> g\<lparr>gi_stack := []\<rparr>
      | state # prev # rest \<Rightarrow> g\<lparr>gi_stack := squash_states state prev # rest, gi_revision := gi_revision g - 1\<rparr>)"

definition commit :: "int \<Rightarrow> ('c, 'a) generic_index \<Rightarrow> ('c, 'a) generic_index" where
  "commit revision g = g\<lparr>gi_stack := rev (dropWhile (\<lambda>s. us_revision s \<le> revision) (rev (gi_stack g)))\<rparr>"

lemma undo_shrinks: "undo mi g = Inr g' \<Longrightarrow> gi_stack g \<noteq> [] \<Longrightarrow> length (gi_stack g') < length (gi_stack g)"
  by (auto simp: undo_def result_simps split: list.splits)

function undo_all :: "('c, 'a chain_object) multi_index \<Rightarrow> ('c, 'a) generic_index \<Rightarrow> ('c, 'a) generic_index result" where
  "undo_all mi g = (if gi_stack g = [] then Inr g else rbind (undo mi g) (undo_all mi))"
  by pat_completeness auto
termination
  by (relation "measure (\<lambda>(_, g). length (gi_stack g))") (auto dest: undo_shrinks)

declare undo_all.simps [simp del]

definition set_revision :: "int \<Rightarrow> ('c, 'a) generic_index \<Rightarrow> ('c, 'a) generic_index result" where
  "set_revision r g =
     (if gi_stack g \<noteq> [] then Inl (Logic_Error_Exception ''cannot set revision while there is an existing undo stack'')
      else Inr (g\<lparr>gi_revision := r\<rparr>))"

section \<open>Facts on the ordered maps\<close>

abbreviation om_map :: "'a chain_object list \<Rightarrow> nat \<rightharpoonup> 'a chain_object" where
  "om_map xs \<equiv> \<lambda>i. om_find i xs"

lemma om_find_simps [simp]:
  "om_find i [] = None"
  "om_find i (v # xs) = (if get_id v = i then Some v else om_find i xs)"
  by (simp_all add: om_find_def)

lemma om_find_id: "om_find i xs = Some v \<Longrightarrow> get_id v = i \<and> v \<in> set xs"
  by (induction xs) (auto split: if_splits)

lemma om_find_None: "om_find i xs = None \<longleftrightarrow> i \<notin> get_id ` set xs"
  by (induction xs) auto

lemma dom_om_map: "dom (om_map xs) = get_id ` set xs"
  unfolding set_eq_iff domIff om_find_None by simp

lemma om_find_insort: "get_id v \<notin> get_id ` set xs \<Longrightarrow> om_find i (insort_key get_id v xs) = (if i = get_id v then Some v else om_find i xs)"
  by (induction xs) auto

lemma om_find_emplace: "om_find i (om_emplace v xs) = (if i = get_id v \<and> om_find i xs = None then Some v else om_find i xs)"
  using om_find_insort [of v xs i] by (auto simp: om_emplace_def om_find_None)

lemma om_find_erase: "om_find i (om_erase j xs) = (if i = j then None else om_find i xs)"
  by (induction xs) (auto simp: om_erase_def)

lemma distinct_om_emplace: "distinct (map get_id xs) \<Longrightarrow> distinct (map get_id (om_emplace v xs))"
proof -
  have "distinct (map get_id (insort_key get_id v xs))" if "get_id v \<notin> get_id ` set xs" "distinct (map get_id xs)" for xs
    using that by (induction xs) (auto simp: set_insort_key)
  then show "distinct (map get_id xs) \<Longrightarrow> distinct (map get_id (om_emplace v xs))"
    by (auto simp: om_emplace_def om_find_None)
qed

lemma distinct_om_erase: "distinct (map get_id xs) \<Longrightarrow> distinct (map get_id (om_erase i xs))"
  by (auto simp: om_erase_def distinct_map inj_on_def)

lemma set_os_insert [simp]: "set (os_insert i xs) = insert i (set xs)" "distinct (os_insert i xs) = distinct xs"
  by (auto simp: os_insert_def set_insort_key distinct_insort)

lemma om_restore: "distinct (map get_id (v # vs)) \<Longrightarrow> (m(get_id v \<mapsto> v)) ++ om_map vs = m ++ om_map (v # vs)"
  by (auto simp: fun_eq_iff map_add_def om_find_None split: option.splits dest!: om_find_id)

section \<open>The specification: a stack of copies\<close>

record 'a snapshots =
  sn_now :: "nat \<rightharpoonup> 'a chain_object"
  sn_next :: nat
  sn_revision :: int
  sn_saved :: "((nat \<rightharpoonup> 'a chain_object) \<times> nat \<times> int) list"

datatype 'a index_op =
    Op_Emplace 'a
  | Op_Modify nat "'a \<Rightarrow> 'a \<times> bool"
  | Op_Remove nat
  | Op_Start
  | Op_Undo
  | Op_Squash
  | Op_Commit int

fun snap_step :: "'a index_op \<Rightarrow> 'a snapshots \<Rightarrow> 'a snapshots" where
  "snap_step (Op_Emplace x) a =
     a\<lparr>sn_now := (sn_now a)(sn_next a \<mapsto> \<lparr>get_id = sn_next a, content = x\<rparr>), sn_next := sn_next a + 1\<rparr>"
| "snap_step (Op_Modify i m) a =
     (case sn_now a i of None \<Rightarrow> a | Some v \<Rightarrow> a\<lparr>sn_now := (sn_now a)(i \<mapsto> v\<lparr>content := fst (m (content v))\<rparr>)\<rparr>)"
| "snap_step (Op_Remove i) a = a\<lparr>sn_now := (sn_now a)(i := None)\<rparr>"
| "snap_step Op_Start a =
     a\<lparr>sn_revision := sn_revision a + 1, sn_saved := (sn_now a, sn_next a, sn_revision a + 1) # sn_saved a\<rparr>"
| "snap_step Op_Undo a =
     (case sn_saved a of [] \<Rightarrow> a | (m, n, _) # rest \<Rightarrow> \<lparr>sn_now = m, sn_next = n, sn_revision = sn_revision a - 1, sn_saved = rest\<rparr>)"
| "snap_step Op_Squash a =
     (case sn_saved a of [] \<Rightarrow> a | [_] \<Rightarrow> a\<lparr>sn_saved := []\<rparr> | _ # rest \<Rightarrow> a\<lparr>sn_saved := rest, sn_revision := sn_revision a - 1\<rparr>)"
| "snap_step (Op_Commit r) a = a\<lparr>sn_saved := rev (dropWhile (\<lambda>(_, _, r'). r' \<le> r) (rev (sn_saved a)))\<rparr>"

text \<open>The same operations on the index, with every way they throw.\<close>

fun gi_step :: "('c, 'a chain_object) multi_index \<Rightarrow> 'a index_op \<Rightarrow> ('c, 'a) generic_index \<Rightarrow> ('c, 'a) generic_index result" where
  "gi_step mi (Op_Emplace x) g =
     (case gi_emplace mi x g of (g', ok) \<Rightarrow> if ok then Inr g' else Inl (Logic_Error_Exception ''could not insert object''))"
| "gi_step mi (Op_Modify i m) g =
     (case mi_find mi i (indices g) of
        None \<Rightarrow> Inl (Out_Of_Range_Exception ''unknown key'')
      | Some v \<Rightarrow> (case gi_modify mi v m g of (g', ok) \<Rightarrow> if ok then Inr g' else Inl (Logic_Error_Exception ''Could not modify object'')))"
| "gi_step mi (Op_Remove i) g =
     (case mi_find mi i (indices g) of
        None \<Rightarrow> Inl (Out_Of_Range_Exception ''unknown key'')
      | Some v \<Rightarrow> Inr (gi_remove mi v g))"
| "gi_step mi Op_Start g = Inr (start_undo_session g)"
| "gi_step mi Op_Undo g = undo mi g"
| "gi_step mi Op_Squash g = Inr (squash g)"
| "gi_step mi (Op_Commit r) g = Inr (commit r g)"

fun gi_run :: "('c, 'a chain_object) multi_index \<Rightarrow> 'a index_op list \<Rightarrow> ('c, 'a) generic_index \<Rightarrow> ('c, 'a) generic_index result" where
  "gi_run mi [] g = Inr g"
| "gi_run mi (op # ops) g = rbind (gi_step mi op g) (gi_run mi ops)"

section \<open>Abstraction and invariant\<close>

definition unwind :: "'a undo_state \<Rightarrow> (nat \<rightharpoonup> 'a chain_object) \<Rightarrow> nat \<rightharpoonup> 'a chain_object" where
  "unwind s m = (\<lambda>i. if old_next_id s \<le> i then None else (m ++ om_map (old_values s) ++ om_map (removed_values s)) i)"

fun unwinds :: "'a undo_state list \<Rightarrow> (nat \<rightharpoonup> 'a chain_object) \<Rightarrow> ((nat \<rightharpoonup> 'a chain_object) \<times> nat \<times> int) list" where
  "unwinds [] m = []"
| "unwinds (s # ss) m = (unwind s m, old_next_id s, us_revision s) # unwinds ss (unwind s m)"

definition abs_index :: "('c, 'a chain_object) multi_index \<Rightarrow> ('c, 'a) generic_index \<Rightarrow> 'a snapshots" where
  "abs_index mi g =
     (let m = (\<lambda>i. mi_find mi i (indices g)) in
      \<lparr>sn_now = m, sn_next = next_id g, sn_revision = gi_revision g, sn_saved = unwinds (gi_stack g) m\<rparr>)"

definition state_ok :: "'a undo_state \<Rightarrow> (nat \<rightharpoonup> 'a chain_object) \<Rightarrow> nat \<Rightarrow> bool" where
  "state_ok s m n \<longleftrightarrow> dom m \<subseteq> {..<n} \<and> old_next_id s \<le> n
     \<and> distinct (map get_id (old_values s)) \<and> distinct (map get_id (removed_values s)) \<and> distinct (new_ids s)
     \<and> set (new_ids s) = {i \<in> dom m. old_next_id s \<le> i}
     \<and> dom (om_map (old_values s)) \<subseteq> {..<old_next_id s} \<inter> dom m
     \<and> dom (om_map (removed_values s)) \<subseteq> {..<old_next_id s} - dom m"

fun stack_ok :: "'a undo_state list \<Rightarrow> (nat \<rightharpoonup> 'a chain_object) \<Rightarrow> nat \<Rightarrow> bool" where
  "stack_ok [] m n = (dom m \<subseteq> {..<n})"
| "stack_ok (s # ss) m n = (state_ok s m n \<and> stack_ok ss (unwind s m) (old_next_id s))"

definition index_ok :: "('c, 'a chain_object) multi_index \<Rightarrow> ('c, 'a) generic_index \<Rightarrow> bool" where
  "index_ok mi g \<longleftrightarrow> stack_ok (gi_stack g) (\<lambda>i. mi_find mi i (indices g)) (next_id g)"

lemma stack_ok_dom: "stack_ok ss m n \<Longrightarrow> dom m \<subseteq> {..<n}"
  by (cases ss) (auto simp: state_ok_def)

section \<open>Documented behaviour of the container\<close>

text \<open>
  \<open>clash v w\<close>: \<open>v\<close> and \<open>w\<close> have the same key in one of the unique indices, which \<open>by_id\<close> always
  is. Inserting an element that clashes leaves the container as it is; changing an element so
  that it clashes with another erases it.
\<close>

locale boost_index =
  fixes mi :: "('c, 'a chain_object) multi_index" and clash :: "'a chain_object \<Rightarrow> 'a chain_object \<Rightarrow> bool"
  assumes find_id: "mi_find mi i c = Some v \<Longrightarrow> get_id v = i"
    and clash_id: "get_id v = get_id w \<Longrightarrow> clash v w"
    and emplace_ok: "(\<And>w. mi_find mi (get_id w) c = Some w \<Longrightarrow> \<not> clash v w) \<Longrightarrow>
      snd (mi_emplace mi v c) \<and> mi_find mi i (fst (mi_emplace mi v c)) = (if i = get_id v then Some v else mi_find mi i c)"
    and emplace_clash: "mi_find mi (get_id w) c = Some w \<Longrightarrow> clash v w \<Longrightarrow>
      \<not> snd (mi_emplace mi v c) \<and> mi_find mi i (fst (mi_emplace mi v c)) = mi_find mi i c"
    and modify_ok: "mi_find mi j c = Some v \<Longrightarrow> get_id (f v) = j \<Longrightarrow>
      (\<And>w. mi_find mi (get_id w) c = Some w \<Longrightarrow> get_id w \<noteq> j \<Longrightarrow> \<not> clash (f v) w) \<Longrightarrow>
      snd (mi_modify mi j f c) \<and> mi_find mi i (fst (mi_modify mi j f c)) = (if i = j then Some (f v) else mi_find mi i c)"
    and modify_clash: "mi_find mi j c = Some v \<Longrightarrow> get_id (f v) = j \<Longrightarrow>
      mi_find mi (get_id w) c = Some w \<Longrightarrow> get_id w \<noteq> j \<Longrightarrow> clash (f v) w \<Longrightarrow>
      \<not> snd (mi_modify mi j f c) \<and> mi_find mi i (fst (mi_modify mi j f c)) = (if i = j then None else mi_find mi i c)"
    and erase: "mi_find mi i (mi_erase mi j c) = (if i = j then None else mi_find mi i c)"
begin

abbreviation view :: "'c \<Rightarrow> nat \<rightharpoonup> 'a chain_object" where
  "view c \<equiv> \<lambda>i. mi_find mi i c"

lemma emplace_True: "mi_emplace mi v c = (c', True) \<Longrightarrow> view c' = (view c)(get_id v \<mapsto> v) \<and> view c (get_id v) = None"
proof
  assume e: "mi_emplace mi v c = (c', True)"
  have no: "\<not> clash v w" if "mi_find mi (get_id w) c = Some w" for w using emplace_clash [OF that] e by fastforce
  then show "view c' = (view c)(get_id v \<mapsto> v)" using emplace_ok [of c v] e by auto
  show "view c (get_id v) = None"
  proof (cases "view c (get_id v)")
    case (Some w)
    then show ?thesis using no [of w] clash_id [of v w] find_id [OF Some] by simp
  qed
qed

lemma modify_True:
  assumes "mi_find mi j c = Some v" "get_id (f v) = j" "mi_modify mi j f c = (c', True)"
  shows "view c' = (view c)(j \<mapsto> f v)"
proof -
  have "\<not> clash (f v) w" if "mi_find mi (get_id w) c = Some w" "get_id w \<noteq> j" for w
    using modify_clash [of j c v f w] that assms by fastforce
  then show ?thesis using modify_ok [of j c v f] assms by auto
qed

lemma restore_old_view: "restore_old mi vs c = Inr c' \<Longrightarrow> distinct (map get_id vs) \<Longrightarrow> view c' = view c ++ om_map vs"
proof (induction vs arbitrary: c)
  case Nil
  then show ?case by (simp add: map_add_def)
next
  case (Cons v vs)
  have "\<exists>c1. view c1 = (view c)(get_id v \<mapsto> v) \<and> restore_old mi vs c1 = Inr c'"
  proof (cases "mi_find mi (get_id v) c")
    case None
    then show ?thesis
      using Cons.prems(1) emplace_True [of v c] by (auto split: prod.splits if_splits)
  next
    case (Some w)
    then show ?thesis
      using Cons.prems(1) modify_True [OF Some, of "\<lambda>_. v"] by (auto split: prod.splits if_splits)
  qed
  then show ?case using Cons.IH Cons.prems(2) om_restore [OF Cons.prems(2), of "view c"] by fastforce
qed

lemma erase_new_view: "erase_new mi is c = Inr c' \<Longrightarrow> view c' = (\<lambda>i. if i \<in> set is then None else view c i)"
proof (induction "is" arbitrary: c)
  case (Cons i "is")
  then show ?case using Cons.IH [of "mi_erase mi i c"] by (auto simp: erase fun_eq_iff split: option.splits)
qed simp

lemma restore_removed_view: "restore_removed mi vs c = Inr c' \<Longrightarrow> distinct (map get_id vs) \<Longrightarrow> view c' = view c ++ om_map vs"
proof (induction vs arbitrary: c)
  case Nil
  then show ?case by (simp add: map_add_def)
next
  case (Cons v vs)
  have "\<exists>c1. view c1 = (view c)(get_id v \<mapsto> v) \<and> restore_removed mi vs c1 = Inr c'"
    using Cons.prems(1) emplace_True [of v c] by (auto split: prod.splits if_splits)
  then show ?case using Cons.IH Cons.prems(2) om_restore [OF Cons.prems(2), of "view c"] by fastforce
qed

end

lemma undo_view:
  assumes "state_ok s m n"
  shows "(\<lambda>i. if i \<in> set (new_ids s) then None else (m ++ om_map (old_values s)) i) ++ om_map (removed_values s) = unwind s m"
  using assms by (fastforce simp: state_ok_def unwind_def fun_eq_iff map_add_def dom_def split: option.splits)

section \<open>One change under a session\<close>

text \<open>\<open>keeps f\<close>: noting the change in the head state leaves the copy it unwinds to as it was.\<close>

definition keeps :: "('a undo_state \<Rightarrow> 'a undo_state) \<Rightarrow> (nat \<rightharpoonup> 'a chain_object) \<Rightarrow> nat \<Rightarrow> (nat \<rightharpoonup> 'a chain_object) \<Rightarrow> nat \<Rightarrow> bool" where
  "keeps f m n m' n' \<longleftrightarrow> (\<forall>s. state_ok s m n \<longrightarrow> state_ok (f s) m' n' \<and> unwind (f s) m' = unwind s m
     \<and> old_next_id (f s) = old_next_id s \<and> us_revision (f s) = us_revision s)"

lemma keeps_create: "get_id v = n \<Longrightarrow> keeps (note_create v) m n (m(n \<mapsto> v)) (n + 1)"
  by (auto simp: keeps_def note_create_def state_ok_def unwind_def fun_eq_iff map_add_def domIff lessThan_def split: option.splits)

lemma keeps_modify:
  assumes "m i = Some v" "get_id v = i"
  shows "keeps (note_modify v) m n (m(i \<mapsto> v')) n"
  unfolding keeps_def
proof (intro allI impI)
  fix s assume ok: "state_ok s m n"
  consider "i \<in> set (new_ids s)" | "i \<notin> set (new_ids s)" "om_find i (old_values s) \<noteq> None"
    | "i \<notin> set (new_ids s)" "om_find i (old_values s) = None" by blast
  then show "state_ok (note_modify v s) (m(i \<mapsto> v')) n \<and> unwind (note_modify v s) (m(i \<mapsto> v')) = unwind s m
     \<and> old_next_id (note_modify v s) = old_next_id s \<and> us_revision (note_modify v s) = us_revision s"
  proof cases
    case 3
    then have "i < old_next_id s" using ok assms by (auto simp: state_ok_def)
    then show ?thesis
      using ok assms 3
      by (auto simp: note_modify_def state_ok_def unwind_def fun_eq_iff map_add_def dom_def om_find_emplace distinct_om_emplace split: option.splits if_splits)
  qed (use ok assms in \<open>auto simp: note_modify_def state_ok_def unwind_def fun_eq_iff map_add_def dom_def split: option.splits\<close>)
qed

lemma keeps_remove:
  assumes "m i = Some v" "get_id v = i"
  shows "keeps (note_remove v) m n (m(i := None)) n"
  unfolding keeps_def
proof (intro allI impI)
  fix s assume ok: "state_ok s m n"
  have r: "om_find i (removed_values s) = None" using ok assms by (auto simp: state_ok_def dom_def)
  consider "i \<in> set (new_ids s)" | x where "i \<notin> set (new_ids s)" "om_find i (old_values s) = Some x"
    | "i \<notin> set (new_ids s)" "om_find i (old_values s) = None" by blast
  then show "state_ok (note_remove v s) (m(i := None)) n \<and> unwind (note_remove v s) (m(i := None)) = unwind s m
     \<and> old_next_id (note_remove v s) = old_next_id s \<and> us_revision (note_remove v s) = us_revision s"
  proof cases
    case 1
    then show ?thesis
      using ok assms by (auto simp: note_remove_def state_ok_def unwind_def fun_eq_iff map_add_def dom_def split: option.splits)
  next
    case (2 x)
    then have "i < old_next_id s" "get_id x = i" using ok assms om_find_id [OF 2(2)] by (auto simp: state_ok_def)
    then show ?thesis
      using ok assms 2 r
      by (auto simp: note_remove_def state_ok_def unwind_def fun_eq_iff map_add_def dom_def om_find_emplace om_find_erase
          distinct_om_emplace distinct_om_erase split: option.splits if_splits)
  next
    case 3
    then have "i < old_next_id s" using ok assms by (auto simp: state_ok_def)
    then show ?thesis
      using ok assms 3 r
      by (auto simp: note_remove_def state_ok_def unwind_def fun_eq_iff map_add_def dom_def om_find_emplace distinct_om_emplace
          split: option.splits if_splits)
  qed
qed

section \<open>Squash\<close>

lemma squash_old_fold:
  "distinct (map get_id vs) \<Longrightarrow> p' = foldl squash_old p vs \<Longrightarrow>
   new_ids p' = new_ids p \<and> removed_values p' = removed_values p \<and> old_next_id p' = old_next_id p \<and> us_revision p' = us_revision p
   \<and> om_map (old_values p') = (\<lambda>i. if i \<in> set (new_ids p) \<or> om_find i (old_values p) \<noteq> None then om_find i (old_values p) else om_find i vs)
   \<and> (distinct (map get_id (old_values p)) \<longrightarrow> distinct (map get_id (old_values p')))"
proof (induction vs arbitrary: p)
  case (Cons v vs)
  have v: "om_find (get_id v) vs = None" using Cons.prems(1) by (simp add: om_find_None)
  show ?case
    using Cons.IH [of "squash_old p v"] Cons.prems v
    by (auto simp: squash_old_def fun_eq_iff om_find_emplace distinct_om_emplace)
qed auto

lemma squash_new_fold: "set (foldl (\<lambda>is i. os_insert i is) is js) = set is \<union> set js \<and> distinct (foldl (\<lambda>is i. os_insert i is) is js) = distinct is"
  by (induction js arbitrary: "is") auto

lemma squash_removed_fold:
  "distinct (map get_id vs) \<Longrightarrow> p' = foldl squash_removed p vs \<Longrightarrow> distinct (new_ids p) \<Longrightarrow>
   (\<And>w. w \<in> set vs \<Longrightarrow> om_find (get_id w) (removed_values p) = None) \<Longrightarrow>
   (\<And>j. j \<in> set (new_ids p) \<Longrightarrow> om_find j (old_values p) = None) \<Longrightarrow>
   set (new_ids p') = set (new_ids p) - get_id ` set vs \<and> distinct (new_ids p') \<and> old_next_id p' = old_next_id p \<and> us_revision p' = us_revision p
   \<and> om_map (old_values p') = (\<lambda>i. if i \<in> get_id ` set vs then None else om_find i (old_values p))
   \<and> om_map (removed_values p') = (\<lambda>i. if i \<in> get_id ` set vs \<and> i \<notin> set (new_ids p)
        then (case om_find i (old_values p) of Some x \<Rightarrow> Some x | None \<Rightarrow> om_find i vs) else om_find i (removed_values p))
   \<and> (distinct (map get_id (old_values p)) \<longrightarrow> distinct (map get_id (old_values p')))
   \<and> (distinct (map get_id (removed_values p)) \<longrightarrow> distinct (map get_id (removed_values p')))"
proof (induction vs arbitrary: p)
  case (Cons v vs)
  define i where "i = get_id v"
  have v: "om_find i vs = None" "\<And>w. w \<in> set vs \<Longrightarrow> get_id w \<noteq> i" using Cons.prems(1) by (force simp: om_find_None i_def)+
  have r: "om_find i (removed_values p) = None" using Cons.prems(4) [of v] by (simp add: i_def)
  consider (new) "i \<in> set (new_ids p)" | (old) x where "i \<notin> set (new_ids p)" "om_find i (old_values p) = Some x"
    | (none) "i \<notin> set (new_ids p)" "om_find i (old_values p) = None" by blast
  then show ?case
  proof cases
    case new
    have o1: "om_find i (old_values p) = None" using Cons.prems(5) [OF new] .
    have q: "squash_removed p v = p\<lparr>new_ids := remove1 i (new_ids p)\<rparr>" using new by (simp add: squash_removed_def i_def)
    show ?thesis
      using Cons.IH [of "p\<lparr>new_ids := remove1 i (new_ids p)\<rparr>"] Cons.prems v r new o1
      by (auto simp: q fun_eq_iff i_def [symmetric] cong: if_cong split: option.split)
  next
    case (old x)
    have x: "get_id x = i" using om_find_id [OF old(2)] by simp
    let ?q = "p\<lparr>removed_values := om_emplace x (removed_values p), old_values := om_erase i (old_values p)\<rparr>"
    have q: "squash_removed p v = ?q" using old by (simp add: squash_removed_def i_def)
    have "om_find (get_id w) (removed_values ?q) = None" if "w \<in> set vs" for w
      using that Cons.prems(4) [of w] v(2) [of w] x by (simp add: om_find_emplace)
    moreover have "om_find j (old_values ?q) = None" if "j \<in> set (new_ids ?q)" for j
      using that Cons.prems(5) [of j] by (simp add: om_find_erase)
    ultimately show ?thesis
      using Cons.IH [of ?q] Cons.prems(1-3) v r old x
      by (auto simp: q fun_eq_iff i_def [symmetric] om_find_emplace om_find_erase distinct_om_emplace distinct_om_erase
          cong: if_cong split: option.split)
  next
    case none
    let ?q = "p\<lparr>removed_values := om_emplace v (removed_values p)\<rparr>"
    have q: "squash_removed p v = ?q" using none by (simp add: squash_removed_def i_def)
    have "om_find (get_id w) (removed_values ?q) = None" if "w \<in> set vs" for w
      using that Cons.prems(4) [of w] v(2) [of w] by (simp add: om_find_emplace i_def)
    then show ?thesis
      using Cons.IH [of ?q] Cons.prems(1-3,5) v r none
      by (auto simp: q fun_eq_iff i_def [symmetric] om_find_emplace distinct_om_emplace cong: if_cong split: option.split)
  qed
qed auto

text \<open>What a well-formed undo state says about one object.\<close>

lemma state_okD:
  assumes "state_ok s m n"
  shows "i \<in> set (new_ids s) \<longleftrightarrow> m i \<noteq> None \<and> old_next_id s \<le> i"
    and "om_find i (old_values s) \<noteq> None \<Longrightarrow> i < old_next_id s \<and> m i \<noteq> None"
    and "om_find i (removed_values s) \<noteq> None \<Longrightarrow> i < old_next_id s \<and> m i = None"
    and "m i \<noteq> None \<Longrightarrow> i < n" and "old_next_id s \<le> n"
  using assms by (auto simp: state_ok_def domIff subset_iff)

lemma state_okI:
  assumes "\<And>i. i \<in> set (new_ids s) \<longleftrightarrow> m i \<noteq> None \<and> old_next_id s \<le> i"
    and "\<And>i. om_find i (old_values s) \<noteq> None \<Longrightarrow> i < old_next_id s \<and> m i \<noteq> None"
    and "\<And>i. om_find i (removed_values s) \<noteq> None \<Longrightarrow> i < old_next_id s \<and> m i = None"
    and "\<And>i. m i \<noteq> None \<Longrightarrow> i < n" and "old_next_id s \<le> n"
    and "distinct (map get_id (old_values s))" "distinct (map get_id (removed_values s))" "distinct (new_ids s)"
  shows "state_ok s m n"
  using assms unfolding state_ok_def by (auto simp: domIff subset_iff)

lemma unwind_at: "unwind s m i = (if old_next_id s \<le> i then None else
    case om_find i (removed_values s) of Some v \<Rightarrow> Some v | None \<Rightarrow>
      (case om_find i (old_values s) of Some v \<Rightarrow> Some v | None \<Rightarrow> m i))"
  by (simp add: unwind_def map_add_def split: option.split)

lemma squash_states_maps:
  assumes s: "state_ok s m n" and p: "state_ok p (unwind s m) (old_next_id s)" and q: "q = squash_states s p"
  shows "set (new_ids q) = (set (new_ids p) \<union> set (new_ids s)) - dom (om_map (removed_values s))"
    and "om_find i (old_values q) = (if om_find i (removed_values s) \<noteq> None then None
        else if i \<in> set (new_ids p) \<or> om_find i (old_values p) \<noteq> None then om_find i (old_values p) else om_find i (old_values s))"
    and "om_find i (removed_values q) = (if om_find i (removed_values s) \<noteq> None \<and> i \<notin> set (new_ids p) \<union> set (new_ids s)
        then (case om_find i (old_values p) of Some x \<Rightarrow> Some x | None \<Rightarrow> om_find i (removed_values s)) else om_find i (removed_values p))"
    and "distinct (new_ids q)" "distinct (map get_id (old_values q))" "distinct (map get_id (removed_values q))"
    and "old_next_id q = old_next_id p" "us_revision q = us_revision p"
proof -
  define p1 where "p1 = foldl squash_old p (old_values s)"
  define p2 where "p2 = p1\<lparr>new_ids := foldl (\<lambda>is i. os_insert i is) (new_ids p1) (new_ids s)\<rparr>"
  have q: "q = foldl squash_removed p2 (removed_values s)" by (simp add: q squash_states_def p1_def p2_def Let_def)
  note sd = state_okD [OF s] and pd = state_okD [OF p]
  have ds: "distinct (map get_id (old_values s))" "distinct (map get_id (removed_values s))" "distinct (map get_id (old_values p))"
    "distinct (map get_id (removed_values p))" "distinct (new_ids p)"
    using s p by (simp_all add: state_ok_def)
  have p2: "set (new_ids p2) = set (new_ids p) \<union> set (new_ids s)" "distinct (new_ids p2)" "removed_values p2 = removed_values p"
    "old_next_id p2 = old_next_id p" "us_revision p2 = us_revision p" "distinct (map get_id (old_values p2))"
    "om_map (old_values p2) = (\<lambda>i. if i \<in> set (new_ids p) \<or> om_find i (old_values p) \<noteq> None then om_find i (old_values p) else om_find i (old_values s))"
    using squash_old_fold [OF ds(1) p1_def] ds squash_new_fold [of "new_ids p1" "new_ids s"] by (auto simp: p2_def)
  have dis: "om_find (get_id w) (removed_values p2) = None" if "w \<in> set (removed_values s)" for w
  proof (rule ccontr)
    have "om_find (get_id w) (removed_values s) \<noteq> None" using that by (simp add: om_find_None)
    moreover assume "om_find (get_id w) (removed_values p2) \<noteq> None"
    ultimately show False using sd(3) [of "get_id w"] pd(3) [of "get_id w"] by (auto simp: p2 unwind_at)
  qed
  have dis2: "om_find j (old_values p2) = None" if "j \<in> set (new_ids p2)" for j
    using that pd(1,2) [of j] pd(5) sd(1,2) [of j] fun_cong [OF p2(7), of j]
    by (cases "om_find j (old_values p)"; cases "om_find j (old_values s)") (auto simp: p2)
  note f = squash_removed_fold [OF ds(2) q p2(2) dis dis2, unfolded p2 dom_om_map [symmetric]]
  show "set (new_ids q) = (set (new_ids p) \<union> set (new_ids s)) - dom (om_map (removed_values s))"
    "distinct (new_ids q)" "distinct (map get_id (old_values q))" "distinct (map get_id (removed_values q))"
    "old_next_id q = old_next_id p" "us_revision q = us_revision p"
    using f ds p2 by blast+
  show "om_find i (old_values q) = (if om_find i (removed_values s) \<noteq> None then None
        else if i \<in> set (new_ids p) \<or> om_find i (old_values p) \<noteq> None then om_find i (old_values p) else om_find i (old_values s))"
    using f fun_cong [OF p2(7), of i] by (simp add: fun_eq_iff domIff)
  show "om_find i (removed_values q) = (if om_find i (removed_values s) \<noteq> None \<and> i \<notin> set (new_ids p) \<union> set (new_ids s)
        then (case om_find i (old_values p) of Some x \<Rightarrow> Some x | None \<Rightarrow> om_find i (removed_values s)) else om_find i (removed_values p))"
    using f fun_cong [OF p2(7), of i] sd(2,3) [of i] by (auto simp: fun_eq_iff domIff split: option.split)
qed

lemma squash_states_ok:
  assumes s: "state_ok s m n" and p: "state_ok p (unwind s m) (old_next_id s)"
  shows "state_ok (squash_states s p) m n" "unwind (squash_states s p) m = unwind p (unwind s m)"
proof -
  note q = squash_states_maps [OF s p refl] and sd = state_okD [OF s] and pd = state_okD [OF p]
  show "state_ok (squash_states s p) m n"
  proof (rule state_okI, goal_cases)
    case (1 i)
    show ?case
      using sd(1,3) [of i] sd(2) [of i] pd(1) [of i] pd(5) by (auto simp: q domIff unwind_at split: option.splits)
  next
    case (2 i)
    then show ?case
      using sd(1-3) [of i] pd(1,2) [of i] pd(5) by (auto simp: q unwind_at split: option.splits if_splits)
  next
    case (3 i)
    then show ?case
      using sd(1-3) [of i] pd(1-3) [of i] pd(5) by (auto simp: q unwind_at split: option.splits if_splits)
  qed (use sd(4,5) pd(5) q in auto)
  show "unwind (squash_states s p) m = unwind p (unwind s m)"
  proof
    fix i
    show "unwind (squash_states s p) m i = unwind p (unwind s m) i"
      using sd(1-3) [of i] pd(1-3) [of i] pd(5) by (auto simp: unwind_at q split: option.splits if_splits)
  qed
qed

section \<open>Refinement\<close>

lemma change_head_keeps:
  assumes "stack_ok (gi_stack g) m n" "keeps f m n m' n'" "dom m' \<subseteq> {..<n'}"
  shows "stack_ok (gi_stack (change_head f g)) m' n'" "unwinds (gi_stack (change_head f g)) m' = unwinds (gi_stack g) m"
    and "indices (change_head f g) = indices g" "next_id (change_head f g) = next_id g" "gi_revision (change_head f g) = gi_revision g"
  using assms by (auto simp: change_head_def keeps_def split: list.splits)

lemma unwinds_take: "unwinds (take k ss) m = take k (unwinds ss m)"
  by (induction ss arbitrary: k m) (auto simp: take_Cons' )

lemma stack_ok_take: "stack_ok ss m n \<Longrightarrow> stack_ok (take k ss) m n"
  by (induction ss arbitrary: k m n) (auto simp: take_Cons' state_ok_def)

lemma map_unwinds: "map (snd \<circ> snd) (unwinds ss m) = map us_revision ss"
  by (induction ss arbitrary: m) auto

lemma length_unwinds [simp]: "length (unwinds ss m) = length ss"
  by (induction ss arbitrary: m) auto

lemma rev_dropWhile_take: "rev (dropWhile P (rev xs)) = take (length xs - length (takeWhile P (rev xs))) xs"
  by (simp add: dropWhile_eq_drop rev_drop)

lemma length_takeWhile_map: "length (takeWhile (P \<circ> f) xs) = length (takeWhile P (map f xs))"
  by (simp add: takeWhile_map)

lemma commit_unwinds:
  "unwinds (rev (dropWhile (\<lambda>s. us_revision s \<le> r) (rev ss))) m = rev (dropWhile (\<lambda>(_, _, r'). r' \<le> r) (rev (unwinds ss m)))"
proof -
  have "length (takeWhile (\<lambda>s. us_revision s \<le> r) (rev ss)) = length (takeWhile (\<lambda>r'. r' \<le> r) (rev (map us_revision ss)))"
    using length_takeWhile_map [of "\<lambda>r'. r' \<le> r" us_revision "rev ss"] by (simp add: comp_def rev_map)
  moreover have eq: "(\<lambda>(_ :: nat \<rightharpoonup> 'a chain_object, _ :: nat, r'). r' \<le> r) = (\<lambda>r'. r' \<le> r) \<circ> (snd \<circ> snd)" by auto
  have "length (takeWhile (\<lambda>(_, _, r'). r' \<le> r) (rev (unwinds ss m))) = length (takeWhile (\<lambda>r'. r' \<le> r) (rev (map (snd \<circ> snd) (unwinds ss m))))"
    unfolding eq length_takeWhile_map rev_map ..
  ultimately show ?thesis by (simp add: rev_dropWhile_take unwinds_take map_unwinds)
qed

context boost_index
begin

lemma emplace_refines:
  assumes "index_ok mi g" "gi_emplace mi x g = (g', True)"
  shows "index_ok mi g' \<and> abs_index mi g' = snap_step (Op_Emplace x) (abs_index mi g)"
proof -
  let ?v = "\<lparr>get_id = next_id g, content = x\<rparr>"
  obtain c where c: "mi_emplace mi ?v (indices g) = (c, True)" "g' = on_create ?v (g\<lparr>indices := c, next_id := next_id g + 1\<rparr>)"
    using assms(2) by (auto simp: gi_emplace_def Let_def split: prod.splits bool.splits)
  have view: "view c = (view (indices g))(next_id g \<mapsto> ?v)" using emplace_True [OF c(1)] by simp
  let ?g = "g\<lparr>indices := c, next_id := next_id g + 1\<rparr>"
  have ok: "stack_ok (gi_stack ?g) (view (indices g)) (next_id g)" using assms(1) by (simp add: index_ok_def)
  have "dom (view c) \<subseteq> {..<next_id g + 1}" using stack_ok_dom [OF ok] by (auto simp: view)
  note k = change_head_keeps [OF ok keeps_create [of ?v "next_id g" "view (indices g)"], folded view, OF _ this]
  then show ?thesis
    by (simp add: index_ok_def abs_index_def c(2) on_create_def Let_def view)
qed

lemma modify_refines:
  assumes "index_ok mi g" "mi_find mi i (indices g) = Some v" "gi_modify mi v m g = (g', True)"
  shows "index_ok mi g' \<and> abs_index mi g' = snap_step (Op_Modify i m) (abs_index mi g)"
proof -
  let ?f = "\<lambda>x. x\<lparr>content := fst (m (content x))\<rparr>"
  have id: "get_id v = i" using find_id [OF assms(2)] .
  have ok: "stack_ok (gi_stack g) (view (indices g)) (next_id g)" using assms(1) by (simp add: index_ok_def)
  note k = change_head_keeps [OF ok keeps_modify [of "view (indices g)" i v "next_id g" "?f v", OF assms(2) id]]
  have dom: "dom ((view (indices g))(i \<mapsto> ?f v)) \<subseteq> {..<next_id g}" using stack_ok_dom [OF ok] assms(2) by auto
  obtain c where c: "mi_modify mi i ?f (indices g) = (c, True)" "g' = (on_modify v g)\<lparr>indices := c\<rparr>"
    using assms(3) k(3) [OF dom] by (auto simp: gi_modify_def Let_def on_modify_def id split: prod.splits)
  have view: "view c = (view (indices g))(i \<mapsto> ?f v)" using modify_True [OF assms(2) _ c(1)] id by simp
  show ?thesis
    using k [OF dom] assms(2) by (simp add: index_ok_def abs_index_def c(2) on_modify_def Let_def view)
qed

lemma remove_refines:
  assumes "index_ok mi g" "mi_find mi i (indices g) = Some v"
  shows "index_ok mi (gi_remove mi v g) \<and> abs_index mi (gi_remove mi v g) = snap_step (Op_Remove i) (abs_index mi g)"
proof -
  have id: "get_id v = i" using find_id [OF assms(2)] .
  have ok: "stack_ok (gi_stack g) (view (indices g)) (next_id g)" using assms(1) by (simp add: index_ok_def)
  have dom: "dom ((view (indices g))(i := None)) \<subseteq> {..<next_id g}" using stack_ok_dom [OF ok] by auto
  note k = change_head_keeps [OF ok keeps_remove [of "view (indices g)" i v "next_id g", OF assms(2) id] dom]
  have view: "view (mi_erase mi i (indices g)) = (view (indices g))(i := None)" by (auto simp: erase)
  show ?thesis
    using k by (simp add: index_ok_def abs_index_def gi_remove_def on_remove_def Let_def id view)
qed

lemma undo_refines:
  assumes "index_ok mi g" "undo mi g = Inr g'"
  shows "index_ok mi g' \<and> abs_index mi g' = snap_step Op_Undo (abs_index mi g)"
proof (cases "gi_stack g")
  case Nil
  then show ?thesis using assms by (simp add: undo_def abs_index_def)
next
  case (Cons s ss)
  have ok: "state_ok s (view (indices g)) (next_id g)" "stack_ok ss (unwind s (view (indices g))) (old_next_id s)"
    using assms(1) Cons by (simp_all add: index_ok_def)
  then have dist: "distinct (map get_id (old_values s))" "distinct (map get_id (removed_values s))" by (simp_all add: state_ok_def)
  obtain c1 c2 c3 where c: "restore_old mi (old_values s) (indices g) = Inr c1" "erase_new mi (new_ids s) c1 = Inr c2"
    "restore_removed mi (removed_values s) c2 = Inr c3"
    "g' = g\<lparr>indices := c3, next_id := old_next_id s, gi_stack := ss, gi_revision := gi_revision g - 1\<rparr>"
    using assms(2) Cons by (auto simp: undo_def result_simps)
  have "mi_find mi i c1 = (view (indices g) ++ om_map (old_values s)) i" for i
    using restore_old_view [OF c(1) dist(1)] by metis
  then have "view c3 = unwind s (view (indices g))"
    unfolding undo_view [OF ok(1), symmetric] restore_removed_view [OF c(3) dist(2)] erase_new_view [OF c(2)] by (simp cong: if_cong)
  then show ?thesis
    using ok(2) Cons by (simp add: index_ok_def abs_index_def c(4) Let_def)
qed

lemma squash_refines:
  assumes "index_ok mi g"
  shows "index_ok mi (squash g) \<and> abs_index mi (squash g) = snap_step Op_Squash (abs_index mi g)"
proof -
  consider "gi_stack g = []" | s where "gi_stack g = [s]" | s p ss where "gi_stack g = s # p # ss" by (metis list.exhaust)
  then show ?thesis
  proof cases
    case (3 s p ss)
    then have ok: "state_ok s (view (indices g)) (next_id g)" "state_ok p (unwind s (view (indices g))) (old_next_id s)"
      "stack_ok ss (unwind p (unwind s (view (indices g)))) (old_next_id p)"
      using assms by (simp_all add: index_ok_def)
    show ?thesis
      using 3 ok squash_states_ok [OF ok(1,2)] squash_states_maps(7,8) [OF ok(1,2) refl]
      by (simp add: index_ok_def abs_index_def squash_def Let_def)
  qed (use assms in \<open>auto simp: index_ok_def abs_index_def squash_def Let_def state_ok_def\<close>)
qed

lemma step_refines:
  assumes "index_ok mi g" "gi_step mi op g = Inr g'"
  shows "index_ok mi g' \<and> abs_index mi g' = snap_step op (abs_index mi g)"
proof (cases op)
  case (Op_Emplace x)
  then show ?thesis using assms emplace_refines by (auto split: prod.splits if_splits)
next
  case (Op_Modify i m)
  then show ?thesis using assms modify_refines by (auto split: prod.splits if_splits option.splits)
next
  case (Op_Remove i)
  then show ?thesis using assms remove_refines by (auto split: option.splits)
next
  case Op_Start
  have "dom (view (indices g)) \<subseteq> {..<next_id g}" using assms(1) by (simp add: index_ok_def stack_ok_dom)
  moreover have "unwind \<lparr>old_values = [], removed_values = [], new_ids = [], old_next_id = next_id g, us_revision = r\<rparr> (view (indices g)) = view (indices g)" for r
  proof
    fix i
    show "unwind \<lparr>old_values = [], removed_values = [], new_ids = [], old_next_id = next_id g, us_revision = r\<rparr> (view (indices g)) i = view (indices g) i"
      using calculation by (cases "mi_find mi i (indices g)") (auto simp: unwind_at)
  qed
  moreover have "state_ok \<lparr>old_values = [], removed_values = [], new_ids = [], old_next_id = next_id g, us_revision = r\<rparr> (view (indices g)) (next_id g)" for r
    by (rule state_okI) (use calculation(1) in \<open>force+\<close>)
  ultimately show ?thesis
    using assms Op_Start by (auto simp: index_ok_def abs_index_def start_undo_session_def Let_def)
next
  case Op_Undo
  then show ?thesis using assms undo_refines by simp
next
  case Op_Squash
  then show ?thesis using assms squash_refines by auto
next
  case (Op_Commit r)
  have "index_ok mi (commit r g)"
    using assms(1) by (simp add: index_ok_def commit_def rev_dropWhile_take stack_ok_take)
  then show ?thesis using assms Op_Commit by (auto simp: commit_def abs_index_def Let_def commit_unwinds)
qed

lemma run_refines: "index_ok mi g \<Longrightarrow> gi_run mi ops g = Inr g' \<Longrightarrow> index_ok mi g' \<and> abs_index mi g' = fold snap_step ops (abs_index mi g)"
proof (induction ops arbitrary: g)
  case (Cons op ops)
  then show ?case using step_refines [of g op] by (auto simp: result_simps)
qed simp

text \<open>When only equal ids clash, nothing an undo does can fail.\<close>

lemma restore_old_total: "(\<And>v w. clash v w \<Longrightarrow> get_id v = get_id w) \<Longrightarrow> \<exists>c'. restore_old mi vs c = Inr c'"
proof (induction vs arbitrary: c)
  case (Cons v vs)
  have "\<exists>c1. (case mi_find mi (get_id v) c of Some _ \<Rightarrow> mi_modify mi (get_id v) (\<lambda>_. v) c | None \<Rightarrow> mi_emplace mi v c) = (c1, True)"
  proof (cases "mi_find mi (get_id v) c")
    case None
    have "snd (mi_emplace mi v c)" using emplace_ok [of c v] Cons.prems None by (metis option.distinct(1))
    then show ?thesis using None by (auto simp: prod_eq_iff)
  next
    case (Some w)
    have "snd (mi_modify mi (get_id v) (\<lambda>_. v) c)" using modify_ok [OF Some, of "\<lambda>_. v"] Cons.prems by metis
    then show ?thesis using Some by (auto simp: prod_eq_iff)
  qed
  then show ?case using Cons.IH [OF Cons.prems] by auto
qed simp

lemma erase_new_total: "distinct is \<Longrightarrow> set is \<subseteq> dom (view c) \<Longrightarrow> \<exists>c'. erase_new mi is c = Inr c'"
proof (induction "is" arbitrary: c)
  case (Cons i "is")
  then obtain v where v: "mi_find mi i c = Some v" by auto
  have "set is \<subseteq> dom (view (mi_erase mi i c))" using Cons.prems by (auto simp: erase dom_def split: if_splits)
  then show ?case using Cons.IH [of "mi_erase mi i c"] Cons.prems(1) v by simp
qed simp

lemma restore_removed_total:
  "(\<And>v w. clash v w \<Longrightarrow> get_id v = get_id w) \<Longrightarrow> distinct (map get_id vs) \<Longrightarrow> get_id ` set vs \<inter> dom (view c) = {} \<Longrightarrow>
   \<exists>c'. restore_removed mi vs c = Inr c'"
proof (induction vs arbitrary: c)
  case (Cons v vs)
  have "mi_find mi (get_id v) c = None" using Cons.prems(3) by auto
  then have "snd (mi_emplace mi v c)" using emplace_ok [of c v] Cons.prems(1) by (metis option.distinct(1))
  then obtain c1 where c1: "mi_emplace mi v c = (c1, True)" by (auto simp: prod_eq_iff)
  have "dom (view c1) = insert (get_id v) (dom (view c))" using emplace_True [OF c1] by simp
  moreover have "get_id v \<notin> get_id ` set vs" using Cons.prems(2) by simp
  ultimately have "get_id ` set vs \<inter> dom (view c1) = {}" using Cons.prems(3) by auto
  then show ?case using Cons.IH [of c1] Cons.prems c1 by simp
qed simp

lemma undo_total:
  assumes "\<And>v w. clash v w \<Longrightarrow> get_id v = get_id w" "index_ok mi g"
  shows "\<exists>g'. undo mi g = Inr g'"
proof (cases "gi_stack g")
  case (Cons s ss)
  then have ok: "state_ok s (view (indices g)) (next_id g)" using assms(2) by (simp add: index_ok_def)
  note d = state_okD [OF ok]
  have dist: "distinct (map get_id (old_values s))" "distinct (map get_id (removed_values s))" "distinct (new_ids s)"
    using ok by (simp_all add: state_ok_def)
  obtain c1 where c1: "restore_old mi (old_values s) (indices g) = Inr c1" using restore_old_total assms(1) by blast
  have "mi_find mi i c1 = (view (indices g) ++ om_map (old_values s)) i" for i
    using restore_old_view [OF c1 dist(1)] by metis
  note v1 = this [unfolded map_add_def]
  have "set (new_ids s) \<subseteq> dom (view c1)" using d(1) by (auto simp: v1 split: option.splits)
  then obtain c2 where c2: "erase_new mi (new_ids s) c1 = Inr c2" using erase_new_total dist(3) by blast
  have "mi_find mi i c2 = (if i \<in> set (new_ids s) then None else mi_find mi i c1)" for i using erase_new_view [OF c2] by metis
  note v2 = this [unfolded v1]
  have "get_id ` set (removed_values s) \<inter> dom (view c2) = {}"
  proof (rule ccontr)
    assume "get_id ` set (removed_values s) \<inter> dom (view c2) \<noteq> {}"
    then obtain i where "om_find i (removed_values s) \<noteq> None" "mi_find mi i c2 \<noteq> None" by (auto simp: om_find_None)
    then show False using d(2,3) [of i] by (auto simp: v2 split: if_splits option.splits)
  qed
  then obtain c3 where "restore_removed mi (removed_values s) c2 = Inr c3" using restore_removed_total [OF assms(1) dist(2)] by blast
  then show ?thesis using c1 c2 Cons by (simp add: undo_def)
qed (simp add: undo_def)

lemma undo_all_total:
  assumes "\<And>v w. clash v w \<Longrightarrow> get_id v = get_id w" "index_ok mi g" "gi_stack g \<noteq> []"
  shows "\<exists>g'. undo_all mi g = Inr g' \<and> gi_stack g' = []
    \<and> view (indices g') = fst (last (sn_saved (abs_index mi g))) \<and> next_id g' = fst (snd (last (sn_saved (abs_index mi g))))"
  using assms(2,3)
proof (induction "length (gi_stack g)" arbitrary: g rule: less_induct)
  case less
  obtain g1 where g1: "undo mi g = Inr g1" using undo_total assms(1) less.prems(1) by blast
  have ok: "index_ok mi g1" "abs_index mi g1 = snap_step Op_Undo (abs_index mi g)" using undo_refines [OF less.prems(1) g1] by simp_all
  obtain s ss where s: "gi_stack g = s # ss" using less.prems(2) by (cases "gi_stack g") auto
  have st: "gi_stack g1 = ss" using g1 s by (auto simp: undo_def result_simps)
  have all: "undo_all mi g = undo_all mi g1" using g1 less.prems(2) by (subst undo_all.simps) simp
  show ?case
  proof (cases "ss = []")
    case True
    then show ?thesis
      using ok(2) st s by (subst all, subst undo_all.simps) (simp add: abs_index_def Let_def)
  next
    case False
    then show ?thesis
      using less.hyps [of g1] ok s st all by (auto simp: abs_index_def Let_def neq_Nil_conv)
  qed
qed

end

section \<open>A container with the documented behaviour\<close>

text \<open>A list of objects in the order of their ids, with an arbitrary condition on unique keys beside the id.\<close>

definition same_key :: "('a \<Rightarrow> 'a \<Rightarrow> bool) \<Rightarrow> 'a chain_object \<Rightarrow> 'a chain_object \<Rightarrow> bool" where
  "same_key same v w \<longleftrightarrow> get_id v = get_id w \<or> same (content v) (content w)"

definition shown :: "'a chain_object list \<Rightarrow> 'a chain_object list" where
  "shown c = filter (\<lambda>w. om_find (get_id w) c = Some w) c"

definition list_index :: "('a :: equal \<Rightarrow> 'a \<Rightarrow> bool) \<Rightarrow> ('a chain_object list, 'a chain_object) multi_index" where
  "list_index same =
     \<lparr>mi_find = om_find,
      mi_emplace = (\<lambda>v c. if list_ex (same_key same v) (shown c) then (c, False) else (insort_key get_id v c, True)),
      mi_modify = (\<lambda>j f c. case om_find j c of
          None \<Rightarrow> (c, False)
        | Some v \<Rightarrow> (let rest = om_erase j c in
            if list_ex (same_key same (f v)) (shown rest) then (rest, False) else (insort_key get_id (f v) rest, True))),
      mi_erase = om_erase\<rparr>"

lemma shown_iff: "w \<in> set (shown c) \<longleftrightarrow> om_find (get_id w) c = Some w"
  by (auto simp: shown_def dest: om_find_id)

lemma shown_erase: "w \<in> set (shown (om_erase j c)) \<longleftrightarrow> om_find (get_id w) c = Some w \<and> get_id w \<noteq> j"
  by (auto simp: shown_iff om_find_erase)

lemma insort_no_clash:
  assumes "\<not> list_ex (same_key same v) (shown c)"
  shows "om_find i (insort_key get_id v c) = (if i = get_id v then Some v else om_find i c)"
proof (rule om_find_insort)
  show "get_id v \<notin> get_id ` set c"
  proof
    assume "get_id v \<in> get_id ` set c"
    then obtain w where w: "om_find (get_id v) c = Some w" by (metis om_find_None option.exhaust)
    then have "w \<in> set (shown c)" "same_key same v w" using om_find_id [OF w] by (auto simp: shown_iff same_key_def)
    then show False using assms by (auto simp: list_ex_iff)
  qed
qed

interpretation by_list: boost_index "list_index same" "same_key same" for same :: "'a :: equal \<Rightarrow> 'a \<Rightarrow> bool"
proof (unfold_locales, goal_cases)
  case (1 i c v)
  then show ?case by (auto simp: list_index_def dest: om_find_id)
next
  case (2 v w)
  then show ?case by (simp add: same_key_def)
next
  case (3 c v i)
  then have "\<not> list_ex (same_key same v) (shown c)" by (auto simp: list_ex_iff list_index_def shown_iff)
  then show ?case by (simp add: list_index_def insort_no_clash)
next
  case (4 w c v i)
  then have "list_ex (same_key same v) (shown c)" by (auto simp: list_ex_iff list_index_def shown_iff)
  then show ?case by (simp add: list_index_def)
next
  case (5 j c v f i)
  then have "\<not> list_ex (same_key same (f v)) (shown (om_erase j c))" by (auto simp: list_ex_iff list_index_def shown_erase)
  then show ?case using 5(1,2) by (simp add: list_index_def insort_no_clash Let_def om_find_erase)
next
  case (6 j c v f w i)
  then have "list_ex (same_key same (f v)) (shown (om_erase j c))" by (auto simp: list_ex_iff list_index_def shown_erase)
  then show ?case using 6(1) by (simp add: list_index_def Let_def om_find_erase)
next
  case (7 i j c)
  then show ?case by (simp add: list_index_def om_find_erase)
qed

section \<open>Properties\<close>


definition sample_index :: "(int chain_object list, int) generic_index" where
  "sample_index = \<lparr>gi_stack = [], gi_revision = 0, next_id = 2,
     indices = [\<lparr>get_id = 0, content = 10\<rparr>, \<lparr>get_id = 1, content = 20\<rparr>]\<rparr>"

definition sample_ops :: "int index_op list" where
  "sample_ops = [Op_Start, Op_Emplace 30, Op_Modify 0 (\<lambda>x. (x + 1, False)), Op_Start, Op_Remove 0, Op_Modify 2 (\<lambda>x. (x + 1, False)),
     Op_Modify 1 (\<lambda>x. (x + 1, False)), Op_Squash, Op_Undo]"

lemma sample_index_ok: "index_ok (list_index same) sample_index"
  by (auto simp: index_ok_def sample_index_def list_index_def split: if_splits)





end
