(* ===== verification/Spec2Isabelle.thy ===== *)
theory Spec2Isabelle
  imports Resource_Dynamics Operations Rc_Books Vote_Tally Chainbase_Undo
begin

text \<open>
  A verification development for the consensus code of the Hive node: the arithmetic of \<open>fc\<close>, the
  protocol's assets and names, and the part of \<open>libraries/chain\<close> that moves funds, resource
  credits and votes, over the undo stack of \<open>libraries/chainbase\<close>.

  \<^bold>\<open>The program.\<close> A node receives blocks. Each block is a list of transactions, each transaction a
  list of operations. An operation is first checked by its \<open>validate\<close> method
  (\<open>protocol/hive_operations.cpp\<close>) and then executed by its evaluator's \<open>do_apply\<close>
  (\<open>chain/hive_evaluator.cpp\<close>) on the state, a set of tables of objects kept by \<open>chainbase\<close>.
  After the operations \<open>database::_apply_block\<close> runs the processes that serve due objects. All
  amounts are 64-bit integers, most of them inside the checked type \<open>fc::safe\<close>, which throws
  on overflow; intermediate products are 128 bits wide. A throw abandons the operation, and
  the undo stack restores the state before it.

  \<^bold>\<open>The build.\<close> The model is that of the main network: \<open>IS_TEST_NET\<close>, \<open>HIVE_ENABLE_SMT\<close>,
  \<open>USE_ALTERNATE_CHAIN_ID\<close> and \<open>HIVE_CONVERTER_BUILD\<close> are not defined. Code of all hardforks is
  kept; \<open>has_hardfork\<close> reads the number of processed hardforks from the state.

  \<^bold>\<open>Conventions.\<close> A function that may throw returns \<open>'a result\<close>, an exception or a value; \<open>rbind\<close>
  sequences two such steps, and \<open>fc_assert\<close> is \<open>FC_ASSERT\<close>. What the language leaves undefined (a
  division by zero, \<open>back()\<close> of an empty container) is the exception \<open>Undefined_Behaviour\<close>, so
  that a theorem about a result also excludes it. Machine integers are words where their bits
  matter and integers with explicit casts (\<open>cast_i64\<close>, \<open>cast_u32\<close>, ...) elsewhere. A table is a
  list of records in order of creation, and an index lookup is a search by a key; iteration
  in the order of an index is over the sorted list. Events for plugins, logging and statistics
  are not part of the state. Proofs about sequences of fallible steps use a small calculus,
  \<open>on_ok m Q\<close>: if \<open>m\<close> returns, its value satisfies \<open>Q\<close>, with a rule of the collection \<open>wp\<close> per step.

  \<^bold>\<open>Theories.\<close>
  \<^item> \<open>Prelude\<close>: results, exceptions, the calculus and lemmas on lists and words.
  \<^item> \<open>Fc_Integers\<close>: \<open>fc/safe.hpp\<close>, \<open>fc/saturation.hpp\<close> and the 128-bit helpers of \<open>fc/uint128.hpp\<close>. Checked
    arithmetic returns exactly the mathematical value or throws, saturating arithmetic is the
    clamped value, the full product is exact and the approximate root is within its bounds.
  \<^item> \<open>Raw\<close>: \<open>fc/io/raw.hpp\<close>, \<open>varint.hpp\<close>, \<open>datastream.hpp\<close>. Unpacking inverts packing and consumes
    exactly what was written.
  \<^item> \<open>Damm\<close>, \<open>Asset_Symbol\<close>: \<open>protocol/asset_symbol.cpp\<close> with its check digit. Every single wrong digit
    and every transposition in a numeric asset identifier is detected, and the two
    forms of a symbol convert into each other.
  \<^item> \<open>Asset\<close>: \<open>protocol/asset.cpp\<close>. Prices compare as the rationals they stand for, and a conversion is
    the truncated rational value.
  \<^item> \<open>Account_Name\<close>: \<open>is_valid_account_name\<close> accepts exactly the documented grammar.
  \<^item> \<open>Manabar\<close>, \<open>Delayed_Voting\<close>, \<open>Resource_Dynamics\<close>: \<open>chain/util/manabar.hpp\<close>,
    \<open>delayed_voting_processor.hpp\<close>, \<open>rd.cpp\<close>. Values of regenerated mana, the invariant and the length of
    the queue of delayed votes, and the convergence of resource pools.
  \<^item> \<open>Chain_State\<close>: the objects of the state, their tables and lookups.
  \<^item> \<open>Balances\<close>: \<open>adjust_balance\<close> and its relatives (\<open>database.cpp\<close>) with the payment of interest, and the
    relation \<open>moves\<close> that says what a step does to the totals of \<open>validate_invariants\<close>.
  \<^item> \<open>Transfers\<close>, \<open>Market\<close>, \<open>Conversions\<close>: transfers, escrow and savings; limit orders and their matching;
    conversions of HBD and HIVE. Each evaluator and each process moves funds without creating
    any, an escrow is released only by who may, matching respects the limit of both orders,
    and due conversions are served.
  \<^item> \<open>Operations\<close>: the operations as one type, their dispatch, the processes of a block, and the step
    relation of the ledger.
  \<^item> \<open>Side_Tables\<close>: the interface between the ledger and the tables without funds, a locale interpreted
    for each of them.
  \<^item> \<open>Resource_Credits\<close>, \<open>Rc_Books\<close>: resource credits of accounts (\<open>rc/rc_utility.cpp\<close>) and the proof that
    delegation records and the counters of accounts agree.
  \<^item> \<open>Governance\<close>, \<open>Vote_Tally\<close>: votes for witnesses, proxies and the activation of delayed votes, and the
    proof that the votes of a witness are the power of its voters.
  \<^item> \<open>Chainbase_Undo\<close>: the undo sessions of \<open>chainbase.hpp\<close> over a container with the documented
    behaviour of \<open>boost::multi_index\<close>, refined to a stack of snapshots.

  \<^bold>\<open>Bounds and loops.\<close> No definition uses fuel. Loops over due objects terminate because each turn
  removes an object or a queue entry, walks along proxies because they are cut at
  \<open>HIVE_MAX_PROXY_RECURSION_DEPTH\<close>, and the undo of all sessions because each undo pops one;
  each is a termination proof of its function.

  \<^bold>\<open>Parameters.\<close> The validity of UTF-8 and JSON texts (third-party parsers) is a predicate given to
  \<open>operation_validate\<close>; the container behind an index is a record of operations with
  the laws of the locale \<open>boost_index\<close>, shown consistent by an interpretation on lists.

  \<^bold>\<open>Not modelled.\<close> Comments, votes on them and their rewards; account creation, recovery and key
  changes; the decentralised fund; the witness schedule and block production; the cost of a
  transaction in resource credits; the network, the block log, plugins, wallets and
  cryptography. The manifest lists each part with the reason.
\<close>

section \<open>The ledger\<close>


definition sample_transfer :: operation where
  "sample_transfer = Transfer \<lparr>tr_from = ''alice'', tr_to = ''bob'', tr_amount = mk_asset 100 HIVE_SYMBOL, tr_memo = []\<rparr>"

definition sample_sell :: operation where
  "sample_sell = Limit_Order_Create \<lparr>loc_owner = ''bob'', loc_orderid = 1, loc_amount_to_sell = mk_asset 200 HIVE_SYMBOL,
     loc_min_to_receive = mk_asset 50 HBD_SYMBOL, loc_fill_or_kill = False, loc_expiration = 1700000100\<rparr>"

definition sample_run :: "chain_db result" where
  "sample_run = rbind (evaluator_apply 0 sample_transfer sample_db) (evaluator_apply 0 sample_sell)"


end
